theory Spec2Isabelle
  imports Main "HOL-Library.Product_Lexorder" "HOL-Library.AList"
begin

section \<open>Text\<close>

text \<open>
  A Python \<open>str\<close> is a sequence of Unicode code points, so a string is a list of
  code points (natural numbers): indexing, slicing and \<open>len\<close> count code points, and the
  bullet U+2022 is one element. \<open>u\<close> turns an ASCII literal into such a string.

  Two tables of the interpreter's Unicode database are not part of the repository and are
  parameters of the functions that use them: \<open>L\<close>, which is \<open>str.lower\<close>, and \<open>dv\<close>, the
  decimal value of a code point that \<open>\d\<close> matches and \<open>int\<close> reads (\<open>None\<close> for any
  other code point). \<open>ascii_lower\<close> and \<open>ascii_digit\<close> are what they do on ASCII text.
\<close>

type_synonym ustr = "nat list"

definition u :: "string \<Rightarrow> ustr" where
  "u s = map of_char s"

definition ascii_lower :: "ustr \<Rightarrow> ustr" where
  "ascii_lower s = map (\<lambda>c. if 65 \<le> c \<and> c \<le> 90 then c + 32 else c) s"

definition ascii_digit :: "nat \<Rightarrow> nat option" where
  "ascii_digit c = (if 48 \<le> c \<and> c \<le> 57 then Some (c - 48) else None)"

text \<open>The code points \<open>str.strip()\<close> removes (those for which \<open>str.isspace\<close> holds).\<close>

definition is_space :: "nat \<Rightarrow> bool" where
  "is_space c = ((9 \<le> c \<and> c \<le> 13) \<or> (28 \<le> c \<and> c \<le> 32) \<or> c = 133 \<or> c = 160
     \<or> c = 5760 \<or> (8192 \<le> c \<and> c \<le> 8202) \<or> c = 8232 \<or> c = 8233 \<or> c = 8239
     \<or> c = 8287 \<or> c = 12288)"

definition str_strip :: "ustr \<Rightarrow> ustr" where
  "str_strip s = rev (dropWhile is_space (rev (dropWhile is_space s)))"

definition startswith :: "ustr \<Rightarrow> ustr \<Rightarrow> bool" where
  "startswith s p = (take (length p) s = p)"

definition endswith :: "ustr \<Rightarrow> ustr \<Rightarrow> bool" where
  "endswith s p = (length p \<le> length s \<and> drop (length s - length p) s = p)"

text \<open>\<open>p in s\<close>\<close>

fun str_contains :: "ustr \<Rightarrow> ustr \<Rightarrow> bool" where
  "str_contains [] p = (p = [])"
| "str_contains (c # cs) p = (startswith (c # cs) p \<or> str_contains cs p)"

text \<open>\<open>s.split('\n')\<close> and \<open>'\n'.join(ls)\<close>\<close>

fun str_split_nl :: "ustr \<Rightarrow> ustr list" where
  "str_split_nl [] = [[]]"
| "str_split_nl (c # cs) =
     (if c = 10 then [] # str_split_nl cs
      else (case str_split_nl cs of [] \<Rightarrow> [[c]] | l # ls \<Rightarrow> (c # l) # ls))"

fun str_join_nl :: "ustr list \<Rightarrow> ustr" where
  "str_join_nl [] = []"
| "str_join_nl [l] = l"
| "str_join_nl (l # ls) = l @ 10 # str_join_nl ls"

text \<open>\<open>all(c == '-' for c in s)\<close>\<close>

definition all_dashes :: "ustr \<Rightarrow> bool" where
  "all_dashes s = list_all (\<lambda>c. c = 45) s"

section \<open>Dates\<close>

text \<open>
  \<open>datetime.date\<close>: year, month and day, compared in that order. The constructor raises
  \<open>ValueError\<close> outside \<open>MINYEAR..MAXYEAR\<close>, outside the months and outside the days of
  the month.
\<close>

datatype error = ValueError | KeyError | AttributeError | IndexError | TypeError

type_synonym date = "nat \<times> nat \<times> nat"

definition date_year :: "date \<Rightarrow> nat" where
  "date_year d = fst d"

definition date_month :: "date \<Rightarrow> nat" where
  "date_month d = fst (snd d)"

definition date_day :: "date \<Rightarrow> nat" where
  "date_day d = snd (snd d)"

definition is_leap :: "nat \<Rightarrow> bool" where
  "is_leap y = (y mod 4 = 0 \<and> (y mod 100 \<noteq> 0 \<or> y mod 400 = 0))"

definition days_in_month :: "nat \<Rightarrow> nat \<Rightarrow> nat" where
  "days_in_month y m =
     (if m = 2 then (if is_leap y then 29 else 28)
      else if m = 4 \<or> m = 6 \<or> m = 9 \<or> m = 11 then 30 else 31)"

definition mk_date :: "nat \<Rightarrow> nat \<Rightarrow> nat \<Rightarrow> error + date" where
  "mk_date y m d =
     (if 1 \<le> y \<and> y \<le> 9999 \<and> 1 \<le> m \<and> m \<le> 12 \<and> 1 \<le> d \<and> d \<le> days_in_month y m
      then Inr (y, m, d) else Inl ValueError)"

definition date_max :: date where
  "date_max = (9999, 12, 31)"

text \<open>\<open>d.replace(year=y)\<close> builds the date anew, and raises as the constructor does.\<close>

definition replace_year :: "date \<Rightarrow> nat \<Rightarrow> error + date" where
  "replace_year d y = mk_date y (date_month d) (date_day d)"

section \<open>The patterns of file and folder names\<close>

text \<open>
  \<open>\d{1,2}\<close> is greedy: two digits are tried before one. \<open>digits12\<close> lists the
  alternatives in that order, each with the number \<open>int\<close> reads from the group and the
  rest of the text; \<open>lit\<close> matches a literal. A pattern is the first alternative that
  matches to its end; \<open>re.match\<close> anchors it at the start of the text only.
\<close>

definition digits12 :: "(nat \<Rightarrow> nat option) \<Rightarrow> ustr \<Rightarrow> (nat \<times> ustr) list" where
  "digits12 dv s =
     (case s of
        [] \<Rightarrow> []
      | c1 # r1 \<Rightarrow>
          (case dv c1 of
             None \<Rightarrow> []
           | Some d1 \<Rightarrow>
               (case r1 of
                  [] \<Rightarrow> [(d1, r1)]
                | c2 # r2 \<Rightarrow>
                    (case dv c2 of
                       None \<Rightarrow> [(d1, r1)]
                     | Some d2 \<Rightarrow> [(10 * d1 + d2, r2), (d1, r1)]))))"

definition lit :: "ustr \<Rightarrow> ustr \<Rightarrow> ustr list" where
  "lit p s = (if startswith s p then [drop (length p) s] else [])"

definition first_match :: "'a list \<Rightarrow> 'a option" where
  "first_match xs = (case xs of [] \<Rightarrow> None | x # _ \<Rightarrow> Some x)"

text \<open>\<open>re.match(r'(\d{1,2})-(\d{1,2})\.md', filename)\<close>: month and day.\<close>

definition filename_match :: "(nat \<Rightarrow> nat option) \<Rightarrow> ustr \<Rightarrow> (nat \<times> nat) option" where
  "filename_match dv s =
     first_match
       (concat (map (\<lambda>(m, r1).
          concat (map (\<lambda>r2.
            concat (map (\<lambda>(d, r3).
              map (\<lambda>r4. (m, d)) (lit (u ''.md'') r3))
            (digits12 dv r2)))
          (lit (u ''-'') r1)))
        (digits12 dv s)))"

text \<open>\<open>re.match(r'(\d{1,2})\.(\d{1,2})-(\d{1,2})\.(\d{1,2})', folder_name)\<close>\<close>

definition range_match ::
  "(nat \<Rightarrow> nat option) \<Rightarrow> ustr \<Rightarrow> (nat \<times> nat \<times> nat \<times> nat) option" where
  "range_match dv s =
     first_match
       (concat (map (\<lambda>(sm, r1).
          concat (map (\<lambda>r2.
            concat (map (\<lambda>(sd, r3).
              concat (map (\<lambda>r4.
                concat (map (\<lambda>(em, r5).
                  concat (map (\<lambda>r6.
                    map (\<lambda>(ed, r7). (sm, sd, em, ed)) (digits12 dv r6))
                  (lit (u ''.'') r5)))
                (digits12 dv r4)))
              (lit (u ''-'') r3)))
            (digits12 dv r2)))
          (lit (u ''.'') r1)))
        (digits12 dv s)))"

text \<open>\<open>os.path.basename\<close> (POSIX): what follows the last slash.\<close>

definition basename :: "ustr \<Rightarrow> ustr" where
  "basename p = rev (takeWhile (\<lambda>c. c \<noteq> 47) (rev p))"

section \<open>Dates of files and folders\<close>

text \<open>
  \<open>now\<close> is \<open>datetime.now().year\<close>. \<open>extract_date_from_filename\<close> catches the
  \<open>ValueError\<close> of the constructor and returns \<open>None\<close>.
\<close>

definition extract_date_from_filename ::
  "(nat \<Rightarrow> nat option) \<Rightarrow> nat \<Rightarrow> ustr \<Rightarrow> nat option \<Rightarrow> date option" where
  "extract_date_from_filename dv now filename year =
     (case filename_match dv filename of
        None \<Rightarrow> None
      | Some (month, day) \<Rightarrow>
          (let y = (case year of None \<Rightarrow> now | Some y' \<Rightarrow> y') in
           case mk_date y month day of
             Inr d \<Rightarrow> Some d
           | Inl e \<Rightarrow> None))"

text \<open>
  \<open>get_date_range_from_folder\<close> builds its two dates outside any \<open>try\<close>: a
  \<open>ValueError\<close> of the constructor leaves the function.
\<close>

definition get_date_range_from_folder ::
  "(nat \<Rightarrow> nat option) \<Rightarrow> nat \<Rightarrow> ustr \<Rightarrow> error + (date option \<times> date option \<times> nat)" where
  "get_date_range_from_folder dv now folder_path =
     (let folder_name = basename folder_path in
      case range_match dv folder_name of
        Some (start_month, start_day, end_month, end_day) \<Rightarrow>
          (let current_year = now in
           if end_month < start_month then
             (case mk_date current_year start_month start_day of
                Inl e \<Rightarrow> Inl e
              | Inr start_date \<Rightarrow>
                  (case mk_date (current_year + 1) end_month end_day of
                     Inl e \<Rightarrow> Inl e
                   | Inr end_date \<Rightarrow> Inr (Some start_date, Some end_date, current_year)))
           else
             (case mk_date current_year start_month start_day of
                Inl e \<Rightarrow> Inl e
              | Inr start_date \<Rightarrow>
                  (case mk_date current_year end_month end_day of
                     Inl e \<Rightarrow> Inl e
                   | Inr end_date \<Rightarrow> Inr (Some start_date, Some end_date, current_year))))
      | None \<Rightarrow> Inr (None, None, now))"

text \<open>The loop of \<open>sort_files_by_date\<close> that dates every file.\<close>

fun file_dates ::
  "(nat \<Rightarrow> nat option) \<Rightarrow> nat \<Rightarrow> date option \<Rightarrow> date option \<Rightarrow> nat \<Rightarrow> ustr list
     \<Rightarrow> error + (date \<times> ustr) list" where
  "file_dates dv now start_date end_date year [] = Inr []"
| "file_dates dv now start_date end_date year (filename # rest) =
     (case
        (case extract_date_from_filename dv now filename (Some year) of
           Some file_date \<Rightarrow>
             (case (start_date, end_date) of
                (Some sd, Some ed) \<Rightarrow>
                  (if date_month file_date < date_month sd
                   then replace_year file_date (year + 1)
                   else Inr file_date)
              | _ \<Rightarrow> Inr file_date)
         | None \<Rightarrow> Inr date_max)
      of
        Inl e \<Rightarrow> Inl e
      | Inr d \<Rightarrow>
          (case file_dates dv now start_date end_date year rest of
             Inl e \<Rightarrow> Inl e
           | Inr ds \<Rightarrow> Inr ((d, filename) # ds)))"

text \<open>\<open>list.sort(key=...)\<close> is stable, as \<open>sort_key\<close> is.\<close>

definition sort_files_by_date ::
  "(nat \<Rightarrow> nat option) \<Rightarrow> nat \<Rightarrow> ustr list \<Rightarrow> ustr \<Rightarrow> error + ustr list" where
  "sort_files_by_date dv now md_files folder_path =
     (case get_date_range_from_folder dv now folder_path of
        Inl e \<Rightarrow> Inl e
      | Inr (start_date, end_date, year) \<Rightarrow>
          (case file_dates dv now start_date end_date year md_files of
             Inl e \<Rightarrow> Inl e
           | Inr fds \<Rightarrow> Inr (map snd (sort_key fst fds))))"

section \<open>Inline links\<close>

text \<open>
  The pattern \<open>\[([^\]]+)\]\(([^)]+)\)\<close>, matched at the start of a text: an opening
  bracket, the characters up to the next closing bracket (at least one), the two characters
  \<open>](\<close>, the characters up to the next closing parenthesis (at least one), and that
  parenthesis. Both classes are greedy and exclude the character that has to follow them,
  so a shorter run never matches. The result is the link text, the target and what
  follows the match.
\<close>

definition link_at :: "ustr \<Rightarrow> (ustr \<times> ustr \<times> ustr) option" where
  "link_at s =
     (case s of
        [] \<Rightarrow> None
      | c # r \<Rightarrow>
          (if c \<noteq> 91 then None
           else
             (let txt = takeWhile (\<lambda>x. x \<noteq> 93) r;
                  r1 = dropWhile (\<lambda>x. x \<noteq> 93) r
              in if txt = [] \<or> \<not> startswith r1 (u '']('') then None
                 else
                   (let r2 = drop 2 r1;
                        url = takeWhile (\<lambda>x. x \<noteq> 41) r2;
                        r3 = dropWhile (\<lambda>x. x \<noteq> 41) r2
                    in if url = [] then None
                       else (case r3 of [] \<Rightarrow> None | p # rest \<Rightarrow> Some (txt, url, rest))))))"

text \<open>\<open>re.search\<close> takes the leftmost match; the function returns its second group.\<close>

fun extract_link_from_text :: "ustr \<Rightarrow> ustr option" where
  "extract_link_from_text [] = None"
| "extract_link_from_text (c # cs) =
     (case link_at (c # cs) of
        Some (txt, url, rest) \<Rightarrow> Some url
      | None \<Rightarrow> extract_link_from_text cs)"

text \<open>
  \<open>re.sub(r'\[([^\]]+)\]\([^)]+\)', r'\1', s)\<close>: every match, from left to right and
  without overlap, is replaced by its link text.
\<close>

function strip_links :: "ustr \<Rightarrow> ustr" where
  "strip_links [] = []"
| "strip_links (c # cs) =
     (case link_at (c # cs) of
        Some (txt, url, rest) \<Rightarrow> txt @ strip_links rest
      | None \<Rightarrow> c # strip_links cs)"
  by pat_completeness auto
termination
proof (relation "measure length")
  show "wf (measure length)" by simp
next
  fix c cs :: "nat list" and c0 :: nat and x2 x y xa ya
  assume m: "link_at (c0 # cs) = Some x2" "(x, y) = x2" "(xa, ya) = y"
  let ?r1 = "dropWhile (\<lambda>x. x \<noteq> 93) cs"
  let ?r3 = "dropWhile (\<lambda>x. x \<noteq> 41) (drop 2 ?r1)"
  from m have "link_at (c0 # cs) = Some (x, xa, ya)" by simp
  then obtain p where r3: "?r3 = p # ya"
    by (auto simp add: link_at_def Let_def split: if_splits list.splits)
  have "length ?r3 \<le> length (drop 2 ?r1)"
    by (rule length_dropWhile_le)
  also have "\<dots> \<le> length ?r1" by simp
  also have "\<dots> \<le> length cs" by (rule length_dropWhile_le)
  finally have "length ?r3 \<le> length cs" .
  with r3 show "(ya, c0 # cs) \<in> measure length" by simp
next
  fix c :: nat and cs :: "nat list"
  show "(cs, c # cs) \<in> measure length" by simp
qed

section \<open>Items\<close>

text \<open>
  An item is a dictionary with the keys \<open>title\<close>, \<open>description\<close> and
  \<open>reference_link\<close>. \<open>description\<close> is always there; \<open>title = None\<close> is an item
  without the key \<open>title\<close>; \<open>reference_link = None\<close> is the value \<open>None\<close> of a raw item
  and the missing key of a cleaned one (the code reads it by \<open>item.get\<close> only).
\<close>

record item =
  title :: "ustr option"
  description :: ustr
  reference_link :: "ustr option"

text \<open>
  The body of the loop of \<open>clean_items\<close>: \<open>None\<close> when the item is left out. An item
  always has a key, so \<open>if not item\<close> never skips one.
\<close>

definition clean_item :: "item \<Rightarrow> item option" where
  "clean_item it =
     (let d = strip_links (str_strip (description it));
          t = (case title it of None \<Rightarrow> [] | Some t' \<Rightarrow> t')
      in if d \<noteq> [] \<or> t \<noteq> [] then
           (let d' = (if d = [] \<and> t \<noteq> [] then t else d);
                t' = (if d = [] \<and> t \<noteq> [] then [] else t)
            in Some \<lparr> title = (if t' \<noteq> [] then Some t' else None),
                      description = d',
                      reference_link =
                        (case reference_link it of
                           None \<Rightarrow> None
                         | Some l \<Rightarrow> if l \<noteq> [] then Some l else None) \<rparr>)
         else None)"

fun clean_items :: "item list \<Rightarrow> item list" where
  "clean_items [] = []"
| "clean_items (it # its) =
     (case clean_item it of
        None \<Rightarrow> clean_items its
      | Some c \<Rightarrow> c # clean_items its)"

section \<open>The simple sections\<close>

datatype sect = HIGHLIGHTS | BUSINESS | PRODUCTS | TECHNOLOGY | RESEARCH

text \<open>
  The parsers read \<open>lines[i].strip()\<close> and \<open>lines[i + 1].strip()\<close> only, so their loops
  run over the stripped lines; the head of the list is line \<open>i\<close>.
\<close>

definition stripped_lines :: "ustr \<Rightarrow> ustr list" where
  "stripped_lines content = map str_strip (str_split_nl content)"

text \<open>\<open>line in ['* * *', '* *'] or all(c in ['*', ' '] for c in line)\<close>\<close>

definition is_delimiter :: "ustr \<Rightarrow> bool" where
  "is_delimiter line =
     (line = u ''* * *'' \<or> line = u ''* *'' \<or> list_all (\<lambda>c. c = 42 \<or> c = 32) line)"

text \<open>
  \<open>i + 1 < len(lines) and lines[i + 1].strip() and all(c == '-' ...) and
  len(lines[i + 1].strip()) > n\<close>, on the lines after line \<open>i\<close>; \<open>dashes_follow\<close> is the
  test without the length.
\<close>

definition underline_follows :: "nat \<Rightarrow> ustr list \<Rightarrow> bool" where
  "underline_follows n rest =
     (case rest of [] \<Rightarrow> False | nx # rs \<Rightarrow> nx \<noteq> [] \<and> all_dashes nx \<and> length nx > n)"

definition dashes_follow :: "ustr list \<Rightarrow> bool" where
  "dashes_follow rest =
     (case rest of [] \<Rightarrow> False | nx # rs \<Rightarrow> nx \<noteq> [] \<and> all_dashes nx)"

text \<open>Appending a line to the description of an item.\<close>

definition append_description :: "item \<Rightarrow> ustr \<Rightarrow> item" where
  "append_description it line =
     (if description it \<noteq> [] then it \<lparr> description := description it @ 32 # line \<rparr>
      else it \<lparr> description := line \<rparr>)"

text \<open>
  \<open>link = extract_link_from_text(text)\<close>;
  \<open>if link and not current_item['reference_link']: current_item['reference_link'] = link\<close>
\<close>

definition capture_link :: "item \<Rightarrow> ustr \<Rightarrow> item" where
  "capture_link it s =
     (case extract_link_from_text s of
        None \<Rightarrow> it
      | Some link \<Rightarrow>
          (if link \<noteq> [] \<and> (reference_link it = None \<or> reference_link it = Some [])
           then it \<lparr> reference_link := Some link \<rparr> else it))"

definition bullet :: nat where
  "bullet = 8226"

text \<open>
  The state of the loop of \<open>parse_simple_section\<close> is the triple of \<open>items\<close>,
  \<open>current_item\<close> and \<open>just_created_item_from_dashes\<close>.

  The branch of the other sections: every line is an item of its own, without a title.
\<close>

definition highlight_line :: "item list \<Rightarrow> ustr \<Rightarrow> item list" where
  "highlight_line items line =
     (if line \<noteq> [] \<and> \<not> startswith line (u ''#'') then
        (if startswith line [bullet] then
           (let d = str_strip (drop 1 line)
            in if d \<noteq> [] then
                 items @ [\<lparr> title = None, description = d,
                            reference_link = extract_link_from_text d \<rparr>]
               else items)
         else
           items @ [\<lparr> title = None, description = line,
                      reference_link = extract_link_from_text line \<rparr>])
      else items)"

text \<open>
  The lines of PRODUCTS that are neither a title nor swallowed: the flag is reset unless
  the line starts with \<open>**[\<close>, and the line is added to the open item.
\<close>

definition products_content :: "item option \<Rightarrow> bool \<Rightarrow> ustr \<Rightarrow> item option \<times> bool" where
  "products_content current_item just_created line =
     (let flag = (if just_created \<and> \<not> startswith line (u ''**['') then False
                  else just_created)
      in case current_item of
           None \<Rightarrow> (None, flag)
         | Some it \<Rightarrow> (Some (capture_link (append_description it line) line), flag))"

fun simple_loop ::
  "sect \<Rightarrow> item list \<times> item option \<times> bool \<Rightarrow> ustr list \<Rightarrow> item list \<times> item option \<times> bool"
  where
  "simple_loop section_name st [] = st"
| "simple_loop section_name (items, current_item, just_created) (line # rest) =
     (if line = [] then simple_loop section_name (items, current_item, just_created) rest
      else if is_delimiter line then
        simple_loop section_name (items, current_item, just_created) rest
      else if section_name = PRODUCTS then
        (if underline_follows 10 rest then
           simple_loop section_name
             (case current_item of None \<Rightarrow> items | Some it \<Rightarrow> items @ [it],
              Some \<lparr> title = Some line, description = [], reference_link = None \<rparr>,
              True)
             (drop 1 rest)
         else if just_created \<and> startswith line (u ''**['') \<and> endswith line (u ''**'') then
           simple_loop section_name (items, current_item, False) rest
         else
           simple_loop section_name
             (items, products_content current_item just_created line) rest)
      else
        simple_loop section_name
          (highlight_line items line, current_item, just_created) rest)"

text \<open>
  \<open>parse_simple_section\<close>. The validation between the loop and \<open>clean_items\<close> only
  prints warnings.
\<close>

definition parse_simple_section :: "ustr \<Rightarrow> sect \<Rightarrow> item list" where
  "parse_simple_section content section_name =
     (case simple_loop section_name ([], None, False) (stripped_lines content) of
        (items, current_item, just_created) \<Rightarrow>
          clean_items (case current_item of None \<Rightarrow> items | Some it \<Rightarrow> items @ [it]))"

section \<open>Splitting a document into its sections\<close>

text \<open>
  The dictionary \<open>sections\<close> of \<open>parse_markdown_file\<close> has the five section names as
  its keys from the start to the end, so it is a function on them, and
  \<open>current_section in sections\<close> holds whenever \<open>current_section\<close> is set.
\<close>

definition section_key :: "sect \<Rightarrow> ustr" where
  "section_key s =
     (case s of
        HIGHLIGHTS \<Rightarrow> u ''HIGHLIGHTS''
      | BUSINESS \<Rightarrow> u ''BUSINESS''
      | PRODUCTS \<Rightarrow> u ''PRODUCTS''
      | TECHNOLOGY \<Rightarrow> u ''TECHNOLOGY''
      | RESEARCH \<Rightarrow> u ''RESEARCH'')"

text \<open>\<open>line.strip() in sections.keys()\<close>, with the key found.\<close>

definition section_of_name :: "ustr \<Rightarrow> sect option" where
  "section_of_name s =
     List.find (\<lambda>k. section_key k = s) [HIGHLIGHTS, BUSINESS, PRODUCTS, TECHNOLOGY, RESEARCH]"

record split_state =
  sections :: "sect \<Rightarrow> ustr"
  current_section :: "sect option"
  section_content :: "ustr list"
  skip_next_dashes :: bool

text \<open>
  \<open>if current_section and current_section in sections:
  sections[current_section] = '\n'.join(section_content).strip()\<close>
\<close>

definition save_section :: "split_state \<Rightarrow> split_state" where
  "save_section st =
     (case current_section st of
        None \<Rightarrow> st
      | Some s \<Rightarrow>
          st \<lparr> sections := (sections st) (s := str_strip (str_join_nl (section_content st))) \<rparr>)"

text \<open>
  The body of the loop over the lines of the document, with the state it leaves and
  whether the loop goes on: at the terminal marker it ends (\<open>break\<close>).
\<close>

definition split_step :: "split_state \<Rightarrow> ustr \<Rightarrow> split_state \<times> bool" where
  "split_step st line =
     (case section_of_name (str_strip line) of
        Some s \<Rightarrow>
          ((save_section st) \<lparr> current_section := Some s, section_content := [],
                                 skip_next_dashes := True \<rparr>, True)
      | None \<Rightarrow>
          (if skip_next_dashes st \<and> str_strip line \<noteq> [] \<and> all_dashes (str_strip line) then
             (st \<lparr> skip_next_dashes := False \<rparr>, True)
           else if str_strip line = u ''* * *'' then
             (case current_section st of
                None \<Rightarrow> (st, True)
              | Some s \<Rightarrow> (st \<lparr> section_content := section_content st @ [line] \<rparr>, True))
           else if startswith (str_strip line) (u ''LOOKING AHEAD'') then
             (save_section st, False)
           else if current_section st \<noteq> None then
             (st \<lparr> section_content := section_content st @ [line],
                    skip_next_dashes := False \<rparr>, True)
           else (st \<lparr> skip_next_dashes := False \<rparr>, True)))"

fun split_loop :: "split_state \<Rightarrow> ustr list \<Rightarrow> split_state" where
  "split_loop st [] = st"
| "split_loop st (line # rest) =
     (case split_step st line of
        (st', go_on) \<Rightarrow> if go_on then split_loop st' rest else st')"

definition split_sections :: "ustr list \<Rightarrow> sect \<Rightarrow> ustr" where
  "split_sections lines =
     sections (save_section (split_loop
       \<lparr> sections = (\<lambda>s. []), current_section = None, section_content = [],
          skip_next_dashes = False \<rparr> lines))"

text \<open>
  \<open>parse_markdown_file\<close>, for the text of the file: the sections it returns. Its
  \<open>title\<close> and \<open>filename\<close> only go to the printed summary.
\<close>

definition parse_markdown_file :: "ustr \<Rightarrow> sect \<Rightarrow> ustr" where
  "parse_markdown_file content = split_sections (str_split_nl content)"

text \<open>
  Two states of the splitter that agree on everything the text of section \<open>s\<close> can
  still depend on: the open section and its lines, the flag, and the stored text of
  \<open>s\<close> unless \<open>s\<close> is the open section (then it is stored again before the end).
\<close>

definition same_for :: "sect \<Rightarrow> split_state \<Rightarrow> split_state \<Rightarrow> bool" where
  "same_for s st1 st2 =
     (current_section st1 = current_section st2
      \<and> section_content st1 = section_content st2
      \<and> skip_next_dashes st1 = skip_next_dashes st2
      \<and> (current_section st1 = Some s \<or> sections st1 s = sections st2 s))"

text \<open>The terminal marker, where the loop ends.\<close>

definition is_terminal :: "ustr \<Rightarrow> bool" where
  "is_terminal line = startswith (str_strip line) (u ''LOOKING AHEAD'')"

text \<open>
  The lines that are read: those before the first terminal marker. The body of a section:
  the lines after its header up to the next header of any section, the terminal marker or
  the end.
\<close>

definition read_lines :: "ustr list \<Rightarrow> ustr list" where
  "read_lines ls = takeWhile (\<lambda>l. \<not> is_terminal l) ls"

definition section_body :: "ustr list \<Rightarrow> ustr list" where
  "section_body post =
     takeWhile (\<lambda>l. section_of_name (str_strip l) = None \<and> \<not> is_terminal l) post"

text \<open>
  What the three branches for the lines of a body append to \<open>section_content\<close>;
  \<open>skip\<close> is \<open>skip_next_dashes\<close>, set by the header. While it is set, a line of
  dashes is left out and resets it, a separator \<open>* * *\<close> is kept and leaves it, and
  any other line is kept and resets it.
\<close>

fun section_lines :: "bool \<Rightarrow> ustr list \<Rightarrow> ustr list" where
  "section_lines skip [] = []"
| "section_lines skip (line # rest) =
     (if skip \<and> str_strip line \<noteq> [] \<and> all_dashes (str_strip line) then
        section_lines False rest
      else if str_strip line = u ''* * *'' then line # section_lines skip rest
      else line # section_lines False rest)"

section \<open>The sections with subcategories\<close>

text \<open>
  The keyword table of \<open>parse_categorized_section\<close>, a dictionary in the order it is
  written: for a section, the subcategories with their keywords.
\<close>

definition subcategory_mapping :: "(sect \<times> (ustr \<times> ustr list) list) list" where
  "subcategory_mapping =
     [(BUSINESS,
        [(u ''Funding & Investment'',
            map u [''funding'', ''investment'', ''arr'', ''revenue'', ''raised'', ''series'',
                   ''million'', ''valuation'', ''fund'']),
         (u ''Company Updates'',
            map u [''ceo'', ''launches'', ''announces'', ''introduces'', ''steps'', ''role'',
                   ''leadership'', ''partnership'', ''acquires'', ''apology'', ''grok'']),
         (u ''Regulatory Developments'',
            map u [''antitrust'', ''complaint'', ''legislation'', ''eu'', ''regulatory'',
                   ''legal'']),
         (u ''Market Trends'',
            map u [''market'', ''trend'', ''industry'', ''companies'', ''race'', ''pay per'',
                   ''analysis'', ''study'', ''mcp'', ''protocol'', ''shopping'',
                   ''prime day''])]),
      (TECHNOLOGY,
        [(u ''Open Source Projects'',
            map u [''github'', ''open-source'', ''stars'', ''repository'', ''langchain'',
                   ''pytorch'']),
         (u ''Models & Datasets'',
            map u [''model'', ''dataset'', ''huggingface'', ''parameters'', ''instruct'',
                   ''downloads'']),
         (u ''Developer Tools & Demos'',
            map u [''demo'', ''space'', ''gradio'', ''docker'', ''interface'', ''likes''])]),
      (RESEARCH,
        [(u ''Paper of the Week'', map u [''paper of the day'', ''paper of the week'']),
         (u ''Notable Research'', map u [''notable research'', ''research''])])]"

text \<open>
  A value of the dictionary \<open>result\<close>: the list of items of a subcategory, or the single
  item that \<open>result[current_subcategory] = current_item\<close> stores for RESEARCH.
\<close>

datatype slot = Items "item list" | Single item

record parse_state =
  result :: "(ustr \<times> slot) list"
  current_subcategory :: "ustr option"
  current_item :: "item option"

text \<open>The truth value of \<open>current_subcategory\<close>: neither \<open>None\<close> nor empty.\<close>

definition is_set :: "ustr option \<Rightarrow> bool" where
  "is_set c = (case c of None \<Rightarrow> False | Some k \<Rightarrow> k \<noteq> [])"

text \<open>
  \<open>result[k].append(it)\<close>: \<open>KeyError\<close> without the key, \<open>AttributeError\<close> on a
  single item, which has no \<open>append\<close>.
\<close>

definition append_item :: "(ustr \<times> slot) list \<Rightarrow> ustr \<Rightarrow> item \<Rightarrow> error + (ustr \<times> slot) list"
  where
  "append_item res k it =
     (case map_of res k of
        None \<Rightarrow> Inl KeyError
      | Some (Single d) \<Rightarrow> Inl AttributeError
      | Some (Items xs) \<Rightarrow> Inr (AList.update k (Items (xs @ [it])) res))"

text \<open>
  \<open>if current_item and current_subcategory:
  result[current_subcategory].append(current_item)\<close>
\<close>

definition save_plain :: "parse_state \<Rightarrow> error + (ustr \<times> slot) list" where
  "save_plain st =
     (case current_item st of
        None \<Rightarrow> Inr (result st)
      | Some it \<Rightarrow>
          (case current_subcategory st of
             None \<Rightarrow> Inr (result st)
           | Some k \<Rightarrow> if k = [] then Inr (result st) else append_item (result st) k it))"

text \<open>
  The same with the branch for RESEARCH:
  \<open>if section_name == 'RESEARCH' and current_subcategory == 'Paper of the Week':
  result[current_subcategory] = current_item\<close>, \<open>else\<close> the \<open>append\<close>.
\<close>

definition save_item :: "sect \<Rightarrow> parse_state \<Rightarrow> error + (ustr \<times> slot) list" where
  "save_item section_name st =
     (case current_item st of
        None \<Rightarrow> Inr (result st)
      | Some it \<Rightarrow>
          (case current_subcategory st of
             None \<Rightarrow> Inr (result st)
           | Some k \<Rightarrow>
               if k = [] then Inr (result st)
               else if section_name = RESEARCH \<and> k = u ''Paper of the Week''
               then Inr (AList.update k (Single it) (result st))
               else append_item (result st) k it))"

text \<open>
  \<open>detect_subcategory\<close>; \<open>table\<close> is \<open>subcategory_mapping[section_name]\<close>. The first
  subcategory with a keyword in the lowered text, then the default of the section, and
  for any other section the first key of the table.
\<close>

definition detect_subcategory ::
  "(ustr \<Rightarrow> ustr) \<Rightarrow> ustr \<Rightarrow> sect \<Rightarrow> (ustr \<times> ustr list) list \<Rightarrow> error + ustr" where
  "detect_subcategory L text section_name table =
     (let text_lower = L text in
      case List.find (\<lambda>(subcategory, keywords).
                        list_ex (\<lambda>keyword. str_contains text_lower keyword) keywords) table of
        Some (subcategory, keywords) \<Rightarrow> Inr subcategory
      | None \<Rightarrow>
          (if section_name = BUSINESS then Inr (u ''Company Updates'')
           else if section_name = TECHNOLOGY then Inr (u ''Developer Tools & Demos'')
           else if section_name = RESEARCH then Inr (u ''Notable Research'')
           else (case table of
                   [] \<Rightarrow> Inl IndexError
                 | (subcategory, keywords) # others \<Rightarrow> Inr subcategory)))"

text \<open>
  \<open>if not current_subcategory:
  current_subcategory = detect_subcategory(text, section_name, subcategory_mapping)\<close>
\<close>

definition auto_detect ::
  "(ustr \<Rightarrow> ustr) \<Rightarrow> sect \<Rightarrow> (ustr \<times> ustr list) list \<Rightarrow> ustr option \<Rightarrow> ustr
     \<Rightarrow> error + ustr option" where
  "auto_detect L section_name table cur text =
     (if is_set cur then Inr cur
      else (case detect_subcategory L text section_name table of
              Inl e \<Rightarrow> Inl e
            | Inr k \<Rightarrow> Inr (Some k)))"

text \<open>
  \<open>re.sub(r'\s*\(\d{4}-\d{2}-\d{2}\)$', '', s)\<close> on a text without a line feed: when
  the text ends with a date in parentheses, the date and the white space before it go.
\<close>

definition is_date_suffix :: "(nat \<Rightarrow> nat option) \<Rightarrow> ustr \<Rightarrow> bool" where
  "is_date_suffix dv t =
     (case t of
        [a, y1, y2, y3, y4, h1, m1, m2, h2, d1, d2, b] \<Rightarrow>
          a = 40 \<and> list_all (\<lambda>c. dv c \<noteq> None) [y1, y2, y3, y4, m1, m2, d1, d2]
          \<and> h1 = 45 \<and> h2 = 45 \<and> b = 41
      | _ \<Rightarrow> False)"

definition strip_date_suffix :: "(nat \<Rightarrow> nat option) \<Rightarrow> ustr \<Rightarrow> ustr" where
  "strip_date_suffix dv s =
     (if 12 \<le> length s \<and> is_date_suffix dv (drop (length s - 12) s)
      then rev (dropWhile is_space (rev (take (length s - 12) s)))
      else s)"

text \<open>
  The body of the loop is a cascade of rules. A rule gets the open state, the line
  (stripped, neither empty nor a delimiter) and the lines after it; \<open>None\<close> means that the
  rule does not apply and the next one is tried. A rule that applies ends the iteration
  with the new state and whether two lines were consumed (\<open>i += 2\<close>), or raises.

  First the rules of RESEARCH.
\<close>

type_synonym step_result = "error + (parse_state \<times> bool)"

definition research_rules ::
  "(ustr \<Rightarrow> ustr) \<Rightarrow> (nat \<Rightarrow> nat option) \<Rightarrow> parse_state \<Rightarrow> ustr \<Rightarrow> ustr list
     \<Rightarrow> step_result option" where
  "research_rules L dv st line rest =
     (if str_contains (L line) (u ''paper of the day'') then
        Some (Inr (st \<lparr> current_subcategory := Some (u ''Paper of the Week'') \<rparr>, False))
      else if str_contains (L line) (u ''notable research'') then
        Some
          (case
             (case current_item st of
                None \<Rightarrow> Inr st
              | Some it \<Rightarrow>
                  if current_subcategory st = Some (u ''Paper of the Week'') then
                    (case append_item (result st) (u ''Paper of the Week'') it of
                       Inl e \<Rightarrow> Inl e
                     | Inr r \<Rightarrow> Inr (st \<lparr> result := r, current_item := None \<rparr>))
                  else Inr st)
           of
             Inl e \<Rightarrow> Inl e
           | Inr st' \<Rightarrow>
               Inr (st' \<lparr> current_subcategory := Some (u ''Notable Research'') \<rparr>,
                    dashes_follow rest))
      else if startswith line (u ''['') \<and> str_contains line (u '']('')
              \<and> str_contains line (u '')'') then
        Some
          (case save_plain st of
             Inl e \<Rightarrow> Inl e
           | Inr r \<Rightarrow>
               Inr (\<lparr> result = r,
                      current_subcategory =
                        (if is_set (current_subcategory st) then current_subcategory st
                         else Some (u ''Paper of the Week'')),
                      current_item =
                        Some \<lparr> title = Some (strip_date_suffix dv (strip_links line)),
                               description = [],
                               reference_link = extract_link_from_text line \<rparr> \<rparr>,
                    False))
      else if startswith line (u ''**Authors:**'') \<or> startswith line (u ''**Institution:**'')
      then
        Some (Inr (case current_item st of
                     None \<Rightarrow> st
                   | Some it \<Rightarrow> st \<lparr> current_item := Some (append_description it line) \<rparr>,
                   False))
      else
        (case current_item st of
           None \<Rightarrow> None
         | Some it \<Rightarrow>
             Some (Inr (st \<lparr> current_item := Some (append_description it line) \<rparr>, False))))"

text \<open>
  The explicit subcategory headers, and the patterns of BUSINESS that stand for one.
\<close>

definition header_rules ::
  "(ustr \<Rightarrow> ustr) \<Rightarrow> sect \<Rightarrow> (ustr \<times> ustr list) list \<Rightarrow> parse_state \<Rightarrow> ustr \<Rightarrow> ustr list
     \<Rightarrow> (parse_state \<times> bool) option" where
  "header_rules L section_name table st line rest =
     (case List.find
             (\<lambda>subcategory.
                str_contains (L line) (L subcategory)
                \<and> (startswith line (u ''###'') \<or> startswith line (u ''##'')
                   \<or> underline_follows 5 rest))
             (map fst table) of
        Some subcategory \<Rightarrow>
          Some (st \<lparr> current_subcategory := Some subcategory \<rparr>, dashes_follow rest)
      | None \<Rightarrow>
          (if section_name = BUSINESS then
             (let line_lower = L line in
              if (str_contains line_lower (u ''market analysis'')
                  \<or> str_contains line_lower (u ''analysis'')) \<and> dashes_follow rest then
                Some (st \<lparr> current_subcategory := Some (u ''Market Trends'') \<rparr>, True)
              else if (str_contains line_lower (u ''m&a'')
                       \<or> str_contains line_lower (u ''mergers'')
                       \<or> str_contains line_lower (u ''partnerships''))
                      \<and> dashes_follow rest then
                Some (st \<lparr> current_subcategory := Some (u ''Company Updates'') \<rparr>, True)
              else None)
           else None))"

text \<open>The subsection headers that TECHNOLOGY skips.\<close>

definition technology_filter :: "(ustr \<Rightarrow> ustr) \<Rightarrow> sect \<Rightarrow> ustr \<Rightarrow> bool" where
  "technology_filter L section_name line =
     (section_name = TECHNOLOGY
      \<and> (startswith line (u ''###'') \<or> startswith line (u ''##''))
      \<and> list_ex (\<lambda>header. str_contains (L line) (L header))
           (map u [''New and Notable Models'', ''Datasets'', ''Models'', ''Developer Tools'',
                   ''Spaces'']))"

text \<open>A title over a line of more than ten dashes.\<close>

definition title_rule ::
  "(ustr \<Rightarrow> ustr) \<Rightarrow> sect \<Rightarrow> (ustr \<times> ustr list) list \<Rightarrow> parse_state \<Rightarrow> ustr \<Rightarrow> ustr list
     \<Rightarrow> step_result option" where
  "title_rule L section_name table st line rest =
     (if (section_name = BUSINESS \<or> section_name = PRODUCTS) \<and> underline_follows 10 rest then
        Some
          (case save_item section_name st of
             Inl e \<Rightarrow> Inl e
           | Inr r \<Rightarrow>
               (case auto_detect L section_name table (current_subcategory st) line of
                  Inl e \<Rightarrow> Inl e
                | Inr c \<Rightarrow>
                    Inr (\<lparr> result = r, current_subcategory = c,
                           current_item =
                             Some \<lparr> title = Some line, description = [],
                                    reference_link = None \<rparr> \<rparr>,
                         True)))
      else None)"

text \<open>
  \<open>line.find('**', 2)\<close> on \<open>line[2:]\<close>: the text before the first \<open>**\<close> and the text
  after it.
\<close>

fun find_stars :: "ustr \<Rightarrow> (ustr \<times> ustr) option" where
  "find_stars [] = None"
| "find_stars (c # cs) =
     (if startswith (c # cs) (u ''**'') then Some ([], drop 2 (c # cs))
      else (case find_stars cs of
              None \<Rightarrow> None
            | Some (a, b) \<Rightarrow> Some (c # a, b)))"

text \<open>The three forms of an item header, with the title and the description they give.\<close>

definition item_header :: "ustr \<Rightarrow> (ustr \<times> ustr) option" where
  "item_header line =
     (if startswith line (u ''###'') then Some (str_strip (drop 3 line), [])
      else if startswith line (u ''**'') \<and> endswith line (u ''**'') then
        Some (str_strip (drop 2 (take (length line - 2) line)), [])
      else if startswith line (u ''**'') then
        (case find_stars (drop 2 line) of
           None \<Rightarrow> None
         | Some (a, b) \<Rightarrow> Some (str_strip a, str_strip b))
      else None)"

definition header_item_rule ::
  "(ustr \<Rightarrow> ustr) \<Rightarrow> sect \<Rightarrow> (ustr \<times> ustr list) list \<Rightarrow> parse_state \<Rightarrow> ustr
     \<Rightarrow> step_result option" where
  "header_item_rule L section_name table st line =
     (case item_header line of
        None \<Rightarrow> None
      | Some (t, d) \<Rightarrow>
          Some
            (case save_item section_name st of
               Inl e \<Rightarrow> Inl e
             | Inr r \<Rightarrow>
                 (case auto_detect L section_name table (current_subcategory st)
                         (t @ 32 # line) of
                    Inl e \<Rightarrow> Inl e
                  | Inr c \<Rightarrow>
                      Inr (\<lparr> result = r, current_subcategory = c,
                             current_item =
                               Some \<lparr> title = Some (strip_links t),
                                      description = strip_links d,
                                      reference_link = extract_link_from_text (t @ 32 # d) \<rparr> \<rparr>,
                           False))))"

text \<open>The names of subcategories that BUSINESS skips when they stand alone.\<close>

definition business_names :: "sect \<Rightarrow> ustr \<Rightarrow> bool" where
  "business_names section_name line =
     (section_name = BUSINESS
      \<and> str_strip line \<in> set (map u [''M&A'', ''Market Analysis'', ''Company Updates'',
                                     ''Funding & Investment'', ''Regulatory Developments'',
                                     ''Market Trends'']))"

text \<open>
  The bullet lines. In BUSINESS with an open item the line goes to its description;
  otherwise the open item is saved and the line starts an item without a title.
\<close>

definition is_bullet :: "ustr \<Rightarrow> bool" where
  "is_bullet line = (startswith line [bullet] \<or> startswith line (u ''*''))"

definition bullet_rule ::
  "(ustr \<Rightarrow> ustr) \<Rightarrow> sect \<Rightarrow> (ustr \<times> ustr list) list \<Rightarrow> parse_state \<Rightarrow> ustr
     \<Rightarrow> step_result option" where
  "bullet_rule L section_name table st line =
     (if is_bullet line then
        (let d = str_strip (drop 1 line) in
         if section_name = BUSINESS \<and> current_item st \<noteq> None then
           (case current_item st of
              None \<Rightarrow> None
            | Some it \<Rightarrow>
                Some (Inr (st \<lparr> current_item :=
                                  Some (capture_link (append_description it d) d) \<rparr>,
                           False)))
         else
           Some
             (case save_item section_name st of
                Inl e \<Rightarrow> Inl e
              | Inr r \<Rightarrow>
                  (case auto_detect L section_name table (current_subcategory st) d of
                     Inl e \<Rightarrow> Inl e
                   | Inr c \<Rightarrow>
                       Inr (\<lparr> result = r, current_subcategory = c,
                              current_item =
                                Some \<lparr> title = None, description = strip_links d,
                                       reference_link = extract_link_from_text d \<rparr> \<rparr>,
                            False))))
      else None)"

text \<open>Any other line is content of the open item, unless it starts with a bracket.\<close>

definition content_rule :: "parse_state \<Rightarrow> ustr \<Rightarrow> parse_state" where
  "content_rule st line =
     (case current_item st of
        None \<Rightarrow> st
      | Some it \<Rightarrow>
          (if line \<noteq> [] \<and> \<not> startswith line (u ''['') then
             st \<lparr> current_item := Some (capture_link (append_description it line) line) \<rparr>
           else st))"

text \<open>The body of the loop, for a line that is neither empty nor a delimiter.\<close>

definition cat_step ::
  "(ustr \<Rightarrow> ustr) \<Rightarrow> (nat \<Rightarrow> nat option) \<Rightarrow> sect \<Rightarrow> (ustr \<times> ustr list) list \<Rightarrow> parse_state
     \<Rightarrow> ustr \<Rightarrow> ustr list \<Rightarrow> step_result" where
  "cat_step L dv section_name table st line rest =
     (case (if section_name = RESEARCH then research_rules L dv st line rest else None) of
        Some r \<Rightarrow> r
      | None \<Rightarrow>
          (case header_rules L section_name table st line rest of
             Some r \<Rightarrow> Inr r
           | None \<Rightarrow>
               (if technology_filter L section_name line then Inr (st, False)
                else
                  (case title_rule L section_name table st line rest of
                     Some r \<Rightarrow> r
                   | None \<Rightarrow>
                       (case header_item_rule L section_name table st line of
                          Some r \<Rightarrow> r
                        | None \<Rightarrow>
                            (if business_names section_name line then Inr (st, False)
                             else
                               (case bullet_rule L section_name table st line of
                                  Some r \<Rightarrow> r
                                | None \<Rightarrow> Inr (content_rule st line, False))))))))"

function cat_loop ::
  "(ustr \<Rightarrow> ustr) \<Rightarrow> (nat \<Rightarrow> nat option) \<Rightarrow> sect \<Rightarrow> (ustr \<times> ustr list) list \<Rightarrow> parse_state
     \<Rightarrow> ustr list \<Rightarrow> error + parse_state" where
  "cat_loop L dv section_name table st [] = Inr st"
| "cat_loop L dv section_name table st (line # rest) =
     (if line = [] then cat_loop L dv section_name table st rest
      else if is_delimiter line then cat_loop L dv section_name table st rest
      else
        (case cat_step L dv section_name table st line rest of
           Inl e \<Rightarrow> Inl e
         | Inr (st', two) \<Rightarrow>
             cat_loop L dv section_name table st' (if two then drop 1 rest else rest)))"
  by pat_completeness auto
termination
  by (relation "measure (\<lambda>(L, dv, section_name, table, st, ls). length ls)") auto

text \<open>
  \<open>for subcategory in result: result[subcategory] = clean_items(result[subcategory])\<close>.
  On a single item \<open>clean_items\<close> runs over the keys of the item, which are strings
  without a \<open>get\<close>.
\<close>

fun clean_result :: "(ustr \<times> slot) list \<Rightarrow> error + (ustr \<times> item list) list" where
  "clean_result [] = Inr []"
| "clean_result ((subcategory, v) # r) =
     (case v of
        Single d \<Rightarrow> Inl AttributeError
      | Items xs \<Rightarrow>
          (case clean_result r of
             Inl e \<Rightarrow> Inl e
           | Inr r' \<Rightarrow> Inr ((subcategory, clean_items xs) # r')))"

text \<open>
  \<open>parse_categorized_section\<close>. Without a table for the section, the first
  \<open>subcategory_mapping[section_name]\<close> raises. The validation before the cleaning only
  prints warnings.
\<close>

definition parse_categorized_section ::
  "(ustr \<Rightarrow> ustr) \<Rightarrow> (nat \<Rightarrow> nat option) \<Rightarrow> ustr \<Rightarrow> sect
     \<Rightarrow> error + (ustr \<times> item list) list" where
  "parse_categorized_section L dv content section_name =
     (case map_of subcategory_mapping section_name of
        None \<Rightarrow> Inl KeyError
      | Some table \<Rightarrow>
          (case cat_loop L dv section_name table
                  \<lparr> result = map (\<lambda>subcategory. (subcategory, Items [])) (map fst table),
                     current_subcategory = None, current_item = None \<rparr>
                  (stripped_lines content) of
             Inl e \<Rightarrow> Inl e
           | Inr st \<Rightarrow>
               (case save_plain st of
                  Inl e \<Rightarrow> Inl e
                | Inr r \<Rightarrow> clean_result r)))"

section \<open>Merging the documents\<close>

text \<open>
  What \<open>parse_section_items\<close> returns and what \<open>json_data\<close> holds for a section: a
  list of items, or a dictionary from subcategories to lists of items (every value that
  \<open>clean_items\<close> returns is a list).
\<close>

datatype jvalue = JList "item list" | JDict "(ustr \<times> item list) list"

definition parse_section_items ::
  "(ustr \<Rightarrow> ustr) \<Rightarrow> (nat \<Rightarrow> nat option) \<Rightarrow> ustr \<Rightarrow> sect \<Rightarrow> error + jvalue" where
  "parse_section_items L dv content section_name =
     (if section_name = HIGHLIGHTS \<or> section_name = PRODUCTS then
        Inr (JList (parse_simple_section content section_name))
      else if section_name = BUSINESS \<or> section_name = TECHNOLOGY \<or> section_name = RESEARCH
      then
        (case parse_categorized_section L dv content section_name of
           Inl e \<Rightarrow> Inl e
         | Inr d \<Rightarrow> Inr (JDict d))
      else Inr (JList (parse_simple_section content section_name)))"

text \<open>The dictionary \<open>json_data\<close> as \<open>merge_files_to_json\<close> seeds it.\<close>

definition json_data_init :: "(sect \<times> jvalue) list" where
  "json_data_init =
     [(HIGHLIGHTS, JList []),
      (BUSINESS, JDict [(u ''Funding & Investment'', []), (u ''Company Updates'', []),
                        (u ''Regulatory Developments'', []), (u ''Market Trends'', [])]),
      (PRODUCTS, JList []),
      (TECHNOLOGY, JDict [(u ''Open Source Projects'', []), (u ''Models & Datasets'', []),
                          (u ''Developer Tools & Demos'', [])]),
      (RESEARCH, JDict [(u ''Paper of the Week'', []), (u ''Notable Research'', [])])]"

definition target_sections :: "sect list" where
  "target_sections = [HIGHLIGHTS, BUSINESS, PRODUCTS, TECHNOLOGY, RESEARCH]"

text \<open>
  \<open>json_data[section].extend(section_data)\<close> and
  \<open>json_data[section][subcategory].extend(items)\<close>, with the errors of a missing key and
  of a value of the other kind.
\<close>

definition extend_list ::
  "(sect \<times> jvalue) list \<Rightarrow> sect \<Rightarrow> item list \<Rightarrow> error + (sect \<times> jvalue) list" where
  "extend_list json_data s xs =
     (case map_of json_data s of
        None \<Rightarrow> Inl KeyError
      | Some (JDict d) \<Rightarrow> Inl AttributeError
      | Some (JList ys) \<Rightarrow> Inr (AList.update s (JList (ys @ xs)) json_data))"

definition extend_sub ::
  "(sect \<times> jvalue) list \<Rightarrow> sect \<Rightarrow> ustr \<Rightarrow> item list \<Rightarrow> error + (sect \<times> jvalue) list" where
  "extend_sub json_data s subcategory xs =
     (case map_of json_data s of
        None \<Rightarrow> Inl KeyError
      | Some (JList ys) \<Rightarrow> Inl TypeError
      | Some (JDict d) \<Rightarrow>
          (case map_of d subcategory of
             None \<Rightarrow> Inl KeyError
           | Some ys \<Rightarrow>
               Inr (AList.update s (JDict (AList.update subcategory (ys @ xs) d)) json_data)))"

text \<open>\<open>for subcategory, items in section_data.items(): ...\<close>\<close>

fun extend_all ::
  "(sect \<times> jvalue) list \<Rightarrow> sect \<Rightarrow> (ustr \<times> item list) list \<Rightarrow> error + (sect \<times> jvalue) list"
  where
  "extend_all json_data s [] = Inr json_data"
| "extend_all json_data s ((subcategory, xs) # d) =
     (case extend_sub json_data s subcategory xs of
        Inl e \<Rightarrow> Inl e
      | Inr j \<Rightarrow> extend_all j s d)"

text \<open>
  The body of the two loops, for a section and the sections of one parsed file. The
  tests \<open>isinstance\<close> leave \<open>json_data\<close> as it is for a value of the other kind.
\<close>

definition merge_one ::
  "(ustr \<Rightarrow> ustr) \<Rightarrow> (nat \<Rightarrow> nat option) \<Rightarrow> (sect \<times> jvalue) list \<Rightarrow> sect \<Rightarrow> (sect \<Rightarrow> ustr)
     \<Rightarrow> error + (sect \<times> jvalue) list" where
  "merge_one L dv json_data s file_sections =
     (if str_strip (file_sections s) \<noteq> [] then
        (case parse_section_items L dv (file_sections s) s of
           Inl e \<Rightarrow> Inl e
         | Inr section_data \<Rightarrow>
             (if s = HIGHLIGHTS \<or> s = PRODUCTS then
                (case section_data of
                   JList xs \<Rightarrow> extend_list json_data s xs
                 | JDict d \<Rightarrow> Inr json_data)
              else if s = BUSINESS \<or> s = TECHNOLOGY \<or> s = RESEARCH then
                (case section_data of
                   JDict d \<Rightarrow> extend_all json_data s d
                 | JList xs \<Rightarrow> Inr json_data)
              else Inr json_data))
      else Inr json_data)"

fun merge_files ::
  "(ustr \<Rightarrow> ustr) \<Rightarrow> (nat \<Rightarrow> nat option) \<Rightarrow> (sect \<times> jvalue) list \<Rightarrow> sect
     \<Rightarrow> (sect \<Rightarrow> ustr) list \<Rightarrow> error + (sect \<times> jvalue) list" where
  "merge_files L dv json_data s [] = Inr json_data"
| "merge_files L dv json_data s (file_sections # parsed_files) =
     (case merge_one L dv json_data s file_sections of
        Inl e \<Rightarrow> Inl e
      | Inr j \<Rightarrow> merge_files L dv j s parsed_files)"

fun merge_sections ::
  "(ustr \<Rightarrow> ustr) \<Rightarrow> (nat \<Rightarrow> nat option) \<Rightarrow> (sect \<times> jvalue) list \<Rightarrow> sect list
     \<Rightarrow> (sect \<Rightarrow> ustr) list \<Rightarrow> error + (sect \<times> jvalue) list" where
  "merge_sections L dv json_data [] parsed_files = Inr json_data"
| "merge_sections L dv json_data (s # ss) parsed_files =
     (case merge_files L dv json_data s parsed_files of
        Inl e \<Rightarrow> Inl e
      | Inr j \<Rightarrow> merge_sections L dv j ss parsed_files)"

text \<open>
  \<open>merge_files_to_json\<close>. The folder is given by its path, by the names that
  \<open>os.listdir\<close> returns, in their order, and by the text of each of its files. The result
  is the dictionary that \<open>json.dump\<close> writes, which it writes key by key in the order of
  the dictionaries; \<open>None\<close> when the folder has no file \<open>.md\<close> and nothing is written.
  Errors of reading and writing files are not modelled.
\<close>

definition merge_files_to_json ::
  "(ustr \<Rightarrow> ustr) \<Rightarrow> (nat \<Rightarrow> nat option) \<Rightarrow> nat \<Rightarrow> ustr \<Rightarrow> ustr list \<Rightarrow> (ustr \<Rightarrow> ustr)
     \<Rightarrow> error + (sect \<times> jvalue) list option" where
  "merge_files_to_json L dv now folder_path listing contents =
     (let md_files = filter (\<lambda>file. endswith file (u ''.md'')) listing in
      if md_files = [] then Inr None
      else
        (case sort_files_by_date dv now md_files folder_path of
           Inl e \<Rightarrow> Inl e
         | Inr ordered \<Rightarrow>
             (let parsed_files = map (\<lambda>file. parse_markdown_file (contents file)) ordered in
              case merge_sections L dv json_data_init target_sections parsed_files of
                Inl e \<Rightarrow> Inl e
              | Inr j \<Rightarrow> Inr (Some j))))"

section \<open>Notions for the properties\<close>

text \<open>All the items of an output structure.\<close>

definition jvalue_items :: "jvalue \<Rightarrow> item list" where
  "jvalue_items v = (case v of JList xs \<Rightarrow> xs | JDict d \<Rightarrow> concat (map snd d))"

definition json_items :: "(sect \<times> jvalue) list \<Rightarrow> item list" where
  "json_items j = concat (map (\<lambda>p. jvalue_items (snd p)) j)"

text \<open>An item as the claims want it: a description, and no empty title.\<close>

definition item_ok :: "item \<Rightarrow> bool" where
  "item_ok it = (description it \<noteq> [] \<and> title it \<noteq> Some [])"

text \<open>
  The keys of an output structure, in their order: for every section whether its value is
  a list (\<open>None\<close>) or a dictionary, with the keys of the dictionary.
\<close>

definition value_schema :: "jvalue \<Rightarrow> ustr list option" where
  "value_schema v = (case v of JList xs \<Rightarrow> None | JDict d \<Rightarrow> Some (map fst d))"

definition json_schema :: "(sect \<times> jvalue) list \<Rightarrow> (sect \<times> ustr list option) list" where
  "json_schema j = map (\<lambda>(s, v). (s, value_schema v)) j"

definition fixed_schema :: "(sect \<times> ustr list option) list" where
  "fixed_schema =
     [(HIGHLIGHTS, None),
      (BUSINESS, Some [u ''Funding & Investment'', u ''Company Updates'',
                       u ''Regulatory Developments'', u ''Market Trends'']),
      (PRODUCTS, None),
      (TECHNOLOGY, Some [u ''Open Source Projects'', u ''Models & Datasets'',
                         u ''Developer Tools & Demos'']),
      (RESEARCH, Some [u ''Paper of the Week'', u ''Notable Research''])]"

text \<open>
  A state of the categorized parser in which nothing can raise: \<open>result\<close> has the keys
  of the table, every value is a list, and \<open>current_subcategory\<close> is one of the keys
  when it is set. A step is good when it does not raise and leaves such a state.
\<close>

definition all_lists :: "(ustr \<times> slot) list \<Rightarrow> bool" where
  "all_lists res = list_all (\<lambda>(k, v). case v of Items xs \<Rightarrow> True | Single d \<Rightarrow> False) res"

definition state_ok :: "(ustr \<times> ustr list) list \<Rightarrow> parse_state \<Rightarrow> bool" where
  "state_ok table st =
     (map fst (result st) = map fst table \<and> all_lists (result st)
      \<and> (case current_subcategory st of
            None \<Rightarrow> True
          | Some k \<Rightarrow> k \<noteq> [] \<and> k \<in> set (map fst table)))"

definition step_ok :: "(ustr \<times> ustr list) list \<Rightarrow> step_result \<Rightarrow> bool" where
  "step_ok table r = (case r of Inl e \<Rightarrow> False | Inr (st', two) \<Rightarrow> state_ok table st')"

text \<open>The items that a parse of a categorized section returns for a subcategory.\<close>

definition subcategory_items :: "error + (ustr \<times> item list) list \<Rightarrow> ustr \<Rightarrow> item list" where
  "subcategory_items r k =
     (case r of
        Inl e \<Rightarrow> []
      | Inr d \<Rightarrow> (case map_of d k of None \<Rightarrow> [] | Some xs \<Rightarrow> xs))"

text \<open>
  The list of a simple section and the list of a subcategory in an output structure
  (empty when there is none), and what one document adds to them: the items parsed from
  its text of the section, when this text is not empty.
\<close>

definition section_list :: "(sect \<times> jvalue) list \<Rightarrow> sect \<Rightarrow> item list" where
  "section_list j s = (case map_of j s of Some (JList xs) \<Rightarrow> xs | _ \<Rightarrow> [])"

definition subcategory_list :: "(sect \<times> jvalue) list \<Rightarrow> sect \<Rightarrow> ustr \<Rightarrow> item list" where
  "subcategory_list j s k =
     (case map_of j s of
        Some (JDict d) \<Rightarrow> (case map_of d k of Some xs \<Rightarrow> xs | None \<Rightarrow> [])
      | _ \<Rightarrow> [])"

definition document_list :: "sect \<Rightarrow> (sect \<Rightarrow> ustr) \<Rightarrow> item list" where
  "document_list s file_sections =
     (if str_strip (file_sections s) \<noteq> [] then parse_simple_section (file_sections s) s
      else [])"

definition document_subcategory ::
  "(ustr \<Rightarrow> ustr) \<Rightarrow> (nat \<Rightarrow> nat option) \<Rightarrow> sect \<Rightarrow> ustr \<Rightarrow> (sect \<Rightarrow> ustr) \<Rightarrow> item list"
  where
  "document_subcategory L dv s k file_sections =
     (if str_strip (file_sections s) \<noteq> []
      then subcategory_items (parse_categorized_section L dv (file_sections s) s) k
      else [])"

text \<open>\<open>item.get('title', '')\<close>\<close>

definition title_text :: "item \<Rightarrow> ustr" where
  "title_text it = (case title it of None \<Rightarrow> [] | Some t \<Rightarrow> t)"

text \<open>
  The folder of scenario A: the files \<open>7-6.md\<close> and \<open>7-7.md\<close>, each with the same
  bullet line under HIGHLIGHTS.
\<close>

definition scenario_a :: "ustr \<Rightarrow> ustr" where
  "scenario_a file = u ''HIGHLIGHTS\<newline>'' @ [bullet] @ u '' Model X launched''"

text \<open>
  A folder with a file for the leap day: \<open>2-29.md\<close> with the highlight \<open>A\<close>, and any
  other file with the highlight \<open>B\<close>.
\<close>

definition leap_day_folder :: "ustr \<Rightarrow> ustr" where
  "leap_day_folder file =
     (if file = u ''2-29.md'' then u ''HIGHLIGHTS\<newline>A'' else u ''HIGHLIGHTS\<newline>B'')"

text \<open>The sections whose value is a list; the others have subcategories.\<close>

definition is_simple :: "sect \<Rightarrow> bool" where
  "is_simple s = (s = HIGHLIGHTS \<or> s = PRODUCTS)"

text \<open>Scenario A with another text for a file that is not a document.\<close>

definition scenario_a_changed :: "ustr \<Rightarrow> ustr" where
  "scenario_a_changed file =
     (if file = u ''notes.txt'' then u ''HIGHLIGHTS\<newline>other'' else scenario_a file)"

text \<open>
  The lines that change the subcategory of RESEARCH, which the section treats before
  anything else.
\<close>

definition research_header :: "(ustr \<Rightarrow> ustr) \<Rightarrow> ustr \<Rightarrow> bool" where
  "research_header L line =
     (str_contains (L line) (u ''paper of the day'')
      \<or> str_contains (L line) (u ''notable research''))"

text \<open>
  The table of a section, and the state of its parser in which \<open>item\<close> is open under the
  subcategory \<open>k\<close> (no subcategory and no item for \<open>None\<close>) and nothing is stored yet.
\<close>

definition table_of :: "sect \<Rightarrow> (ustr \<times> ustr list) list" where
  "table_of s = (case map_of subcategory_mapping s of None \<Rightarrow> [] | Some table \<Rightarrow> table)"

definition open_state :: "sect \<Rightarrow> ustr option \<Rightarrow> item option \<Rightarrow> parse_state" where
  "open_state s k it =
     \<lparr> result = map (\<lambda>subcategory. (subcategory, Items [])) (map fst (table_of s)),
        current_subcategory = k, current_item = it \<rparr>"

section \<open>Properties of the date range and of the file order\<close>

lemmas date_defs =
  get_date_range_from_folder_def range_match_def filename_match_def digits12_def lit_def
  first_match_def basename_def u_def ascii_digit_def startswith_def mk_date_def
  days_in_month_def is_leap_def sort_files_by_date_def extract_date_from_filename_def
  replace_year_def date_month_def date_day_def date_year_def date_max_def

text \<open>
  C3. The claim: the resolver never raises, also on a matching identifier with invalid
  calendar values. The code builds both dates with the validating constructor and has no
  handler around it (\<open>extract_date_from_filename\<close> has one): for the folder
  \<open>13.40-1.1\<close> the \<open>ValueError\<close> of \<open>date(2025, 13, 40)\<close> leaves the function.
\<close>

theorem get_date_range_from_folder_raises:
  "get_date_range_from_folder ascii_digit 2025 (u ''13.40-1.1'') = Inl ValueError"
  by (simp add: date_defs)

text \<open>
  C4, as the code has it. For an identifier that matches the range pattern and whose two
  dates are valid, the resolver returns them with the current year; the end date's year is
  the start date's year plus one exactly when the end month is less than the start month;
  the end date is not before the start date unless both months are equal and the end day
  is less than the start day, and then the end date is before the start date.
\<close>

theorem date_range_order:
  assumes "range_match dv (basename p) = Some (sm, sd, em, ed)"
    and "mk_date now sm sd = Inr s"
    and "mk_date (if em < sm then now + 1 else now) em ed = Inr e"
  shows "get_date_range_from_folder dv now p = Inr (Some s, Some e, now)
    \<and> (date_year e = date_year s + 1 \<longleftrightarrow> em < sm)
    \<and> (em \<noteq> sm \<or> sd \<le> ed \<longrightarrow> s \<le> e)
    \<and> (em = sm \<and> ed < sd \<longrightarrow> e < s)"
proof -
  have s: "s = (now, sm, sd)"
    using assms(2) by (simp add: mk_date_def split: if_splits)
  have e: "e = (if em < sm then now + 1 else now, em, ed)"
    using assms(3) by (simp add: mk_date_def split: if_splits)
  have r: "get_date_range_from_folder dv now p = Inr (Some s, Some e, now)"
    using assms by (cases "em < sm") (simp_all add: get_date_range_from_folder_def)
  show ?thesis
    using r by (auto simp add: s e date_year_def)
qed

theorem date_range_order_witness:
  "get_date_range_from_folder ascii_digit 2025 (u ''12.25-1.5'')
     = Inr (Some (2025, 12, 25), Some (2026, 1, 5), 2025)
   \<and> (date_year (2026, 1, 5) = date_year (2025, 12, 25) + 1 \<longleftrightarrow> (1::nat) < 12)
   \<and> ((2025, 12, 25) \<le> ((2026, 1, 5) :: date))"
proof -
  have m: "range_match ascii_digit (basename (u ''12.25-1.5'')) = Some (12, 25, 1, 5)"
    by (simp add: date_defs)
  have s: "mk_date 2025 12 25 = Inr (2025, 12, 25)"
    by (simp add: date_defs)
  have e: "mk_date (if (1::nat) < 12 then 2025 + 1 else 2025) 1 5 = Inr (2026, 1, 5)"
    by (simp add: date_defs)
  show ?thesis
    using date_range_order [OF m s e] by simp
qed

text \<open>
  C4, as the claim states it, fails on a range within one month whose days are reversed:
  for \<open>7.12-7.6\<close> the end date is before the start date.
\<close>

theorem date_range_reversed:
  "get_date_range_from_folder ascii_digit 2025 (u ''7.12-7.6'')
     = Inr (Some (2025, 7, 12), Some (2025, 7, 6), 2025)
   \<and> \<not> ((2025, 7, 12) \<le> ((2025, 7, 6) :: date))"
  by (simp add: date_defs)

text \<open>
  C5. The claim: an identifier whose date is not a calendar date gets the sentinel and
  never raises. The code catches the \<open>ValueError\<close> of the constructor, but not that of
  \<open>replace\<close>: in the leap year 2028, in the folder \<open>12.25-3.5\<close>, the file
  \<open>2-29.md\<close> is dated 2028-02-29, lies before the start month and is moved to 2029,
  where this day does not exist.
\<close>

theorem sort_files_by_date_raises:
  "sort_files_by_date ascii_digit 2028 [u ''2-29.md''] (u ''12.25-3.5'') = Inl ValueError"
  by (simp add: date_defs)
section \<open>Properties of the section splitter\<close>

lemmas text_defs =
  u_def str_strip_def is_space_def startswith_def endswith_def all_dashes_def
  stripped_lines_def is_delimiter_def underline_follows_def dashes_follow_def bullet_def

lemma same_for_save:
  "same_for s st1 st2 \<Longrightarrow> sections (save_section st1) s = sections (save_section st2) s"
  by (auto simp add: same_for_def save_section_def split: option.splits)

lemma same_for_step:
  assumes "same_for s st1 st2"
  shows "snd (split_step st1 line) = snd (split_step st2 line)
       \<and> same_for s (fst (split_step st1 line)) (fst (split_step st2 line))"
  using assms
  by (auto simp add: same_for_def split_step_def save_section_def split: option.splits)

lemma split_loop_agree:
  assumes "same_for s st1 st2"
  shows "sections (save_section (split_loop st1 ls)) s
       = sections (save_section (split_loop st2 ls)) s"
  using assms
proof (induction ls arbitrary: st1 st2)
  case Nil
  then show ?case by (simp add: same_for_save)
next
  case (Cons line rest)
  obtain a1 g1 where s1: "split_step st1 line = (a1, g1)" by (cases "split_step st1 line")
  obtain a2 g2 where s2: "split_step st2 line = (a2, g2)" by (cases "split_step st2 line")
  from same_for_step [OF Cons.prems, of line] s1 s2
  have g: "g1 = g2" and a: "same_for s a1 a2" by simp_all
  show ?case
  proof (cases g1)
    case True
    with s1 s2 g Cons.IH [OF a] show ?thesis by simp
  next
    case False
    with s1 s2 g same_for_save [OF a] show ?thesis by simp
  qed
qed

lemma split_step_goes_on:
  "\<not> is_terminal line \<Longrightarrow> snd (split_step st line)"
  by (simp add: split_step_def is_terminal_def split: option.splits)

lemma split_loop_go_on:
  "snd (split_step st line) \<Longrightarrow>
     split_loop st (line # rest) = split_loop (fst (split_step st line)) rest"
  by (cases "split_step st line") simp

lemma split_loop_prefix:
  assumes "list_all (\<lambda>l. \<not> is_terminal l) pre"
  shows "\<exists>st'. split_loop st (pre @ rest) = split_loop st' rest"
  using assms
proof (induction pre arbitrary: st)
  case Nil
  then show ?case by auto
next
  case (Cons line pre)
  then have nt: "snd (split_step st line)"
    and IH: "\<And>st. \<exists>st'. split_loop st (pre @ rest) = split_loop st' rest"
    by (auto simp add: split_step_goes_on)
  show ?case
    using nt IH by (cases "split_step st line") simp
qed

lemma split_sections_from_header:
  assumes "section_of_name (str_strip h) = Some s"
    and "list_all (\<lambda>l. \<not> is_terminal l) pre"
  shows "split_sections (pre @ h # post) s = split_sections (h # post) s"
proof -
  let ?init = "\<lparr> sections = (\<lambda>s. []), current_section = None, section_content = [],
          skip_next_dashes = False \<rparr>"
  obtain st' where st': "split_loop ?init (pre @ h # post) = split_loop st' (h # post)"
    using split_loop_prefix [OF assms(2)] by blast
  have "same_for s (fst (split_step st' h)) (fst (split_step ?init h))"
    using assms(1) by (simp add: split_step_def same_for_def)
  then have "sections (save_section (split_loop (fst (split_step st' h)) post)) s
      = sections (save_section (split_loop (fst (split_step ?init h)) post)) s"
    by (rule split_loop_agree)
  moreover have "split_loop st' (h # post) = split_loop (fst (split_step st' h)) post"
    using assms(1) by (intro split_loop_go_on) (simp add: split_step_def)
  moreover have "split_loop ?init (h # post) = split_loop (fst (split_step ?init h)) post"
    using assms(1) by (intro split_loop_go_on) (simp add: split_step_def)
  ultimately show ?thesis
    unfolding split_sections_def st' by simp
qed

lemma terminal_step:
  "is_terminal line \<Longrightarrow> split_step st line = (save_section st, False)"
  by (cases "str_strip line")
    (auto simp add: is_terminal_def split_step_def startswith_def section_of_name_def
      section_key_def u_def all_dashes_def)

lemma save_section_idem: "save_section (save_section st) = save_section st"
  by (simp add: save_section_def split: option.splits)

lemma split_loop_read:
  "save_section (split_loop st ls) = save_section (split_loop st (read_lines ls))"
proof (induction ls arbitrary: st)
  case Nil
  show ?case by (simp add: read_lines_def)
next
  case (Cons line rest)
  show ?case
  proof (cases "is_terminal line")
    case True
    then show ?thesis by (simp add: read_lines_def terminal_step save_section_idem)
  next
    case False
    then have "snd (split_step st line)" by (rule split_step_goes_on)
    then obtain st' where "split_step st line = (st', True)"
      by (cases "split_step st line") simp
    with False Cons.IH [of st'] show ?thesis by (simp add: read_lines_def)
  qed
qed

lemma split_sections_read: "split_sections ls = split_sections (read_lines ls)"
  unfolding split_sections_def by (rule arg_cong [OF split_loop_read])

lemma read_lines_append:
  "list_all (\<lambda>l. \<not> is_terminal l) xs \<Longrightarrow> read_lines (xs @ ys) = xs @ read_lines ys"
  by (simp add: read_lines_def list_all_iff)

lemma split_step_other:
  assumes "section_of_name (str_strip line) \<noteq> Some s" and "current_section st \<noteq> Some s"
  shows "current_section (fst (split_step st line)) \<noteq> Some s
       \<and> sections (fst (split_step st line)) s = sections st s"
  using assms by (auto simp add: split_step_def save_section_def split: option.splits)

lemma split_loop_other:
  assumes "current_section st \<noteq> Some s"
    and "list_all (\<lambda>l. section_of_name (str_strip l) \<noteq> Some s) (read_lines ls)"
  shows "sections (save_section (split_loop st ls)) s = sections st s"
  using assms
proof (induction ls arbitrary: st)
  case Nil
  then show ?case by (simp add: save_section_def split: option.splits)
next
  case (Cons line rest)
  show ?case
  proof (cases "is_terminal line")
    case True
    with Cons.prems(1) show ?thesis
      by (simp add: terminal_step save_section_def split: option.splits)
  next
    case False
    with Cons.prems(2) have nh: "section_of_name (str_strip line) \<noteq> Some s"
      and rest: "list_all (\<lambda>l. section_of_name (str_strip l) \<noteq> Some s) (read_lines rest)"
      by (simp_all add: read_lines_def)
    from False have "snd (split_step st line)" by (rule split_step_goes_on)
    then obtain st' where st': "split_step st line = (st', True)"
      by (cases "split_step st line") simp
    from split_step_other [OF nh Cons.prems(1)] st'
    have "current_section st' \<noteq> Some s" and "sections st' s = sections st s" by simp_all
    with Cons.IH [OF _ rest, of st'] st' show ?thesis by simp
  qed
qed

lemma split_loop_body:
  assumes "list_all (\<lambda>l. section_of_name (str_strip l) = None \<and> \<not> is_terminal l) body"
    and "current_section st = Some s"
  shows "\<exists>b. split_loop st (body @ rs)
            = split_loop (st \<lparr> section_content :=
                                 section_content st @ section_lines (skip_next_dashes st) body,
                               skip_next_dashes := b \<rparr>) rs"
  using assms
proof (induction body arbitrary: st)
  case Nil
  have "st = st \<lparr> section_content := section_content st @ section_lines (skip_next_dashes st) [],
                   skip_next_dashes := skip_next_dashes st \<rparr>"
    by simp
  then have "split_loop st ([] @ rs)
      = split_loop (st \<lparr> section_content :=
                           section_content st @ section_lines (skip_next_dashes st) [],
                         skip_next_dashes := skip_next_dashes st \<rparr>) rs"
    by simp
  then show ?case by blast
next
  case (Cons line body)
  from Cons.prems have nh: "section_of_name (str_strip line) = None"
    and nt: "\<not> is_terminal line"
    and body: "list_all (\<lambda>l. section_of_name (str_strip l) = None \<and> \<not> is_terminal l) body"
    by simp_all
  let ?one = "section_lines (skip_next_dashes st) [line]"
  have "\<exists>b. split_step st line
             = (st \<lparr> section_content := section_content st @ ?one, skip_next_dashes := b \<rparr>, True)
           \<and> section_lines (skip_next_dashes st) (line # body) = ?one @ section_lines b body"
  proof (cases "skip_next_dashes st \<and> str_strip line \<noteq> [] \<and> all_dashes (str_strip line)")
    case True
    with nh have "split_step st line
        = (st \<lparr> section_content := section_content st @ ?one, skip_next_dashes := False \<rparr>, True)
      \<and> section_lines (skip_next_dashes st) (line # body) = ?one @ section_lines False body"
      by (simp add: split_step_def)
    then show ?thesis by blast
  next
    case nd: False
    show ?thesis
    proof (cases "str_strip line = u ''* * *''")
      case True
      with nd nh Cons.prems(2) have "split_step st line
          = (st \<lparr> section_content := section_content st @ ?one,
                   skip_next_dashes := skip_next_dashes st \<rparr>, True)
        \<and> section_lines (skip_next_dashes st) (line # body)
            = ?one @ section_lines (skip_next_dashes st) body"
        by (auto simp add: split_step_def)
      then show ?thesis by blast
    next
      case False
      with nd nh nt Cons.prems(2) have "split_step st line
          = (st \<lparr> section_content := section_content st @ ?one, skip_next_dashes := False \<rparr>,
             True)
        \<and> section_lines (skip_next_dashes st) (line # body) = ?one @ section_lines False body"
        by (auto simp add: split_step_def is_terminal_def)
      then show ?thesis by blast
    qed
  qed
  then obtain b where
    step: "split_step st line
             = (st \<lparr> section_content := section_content st @ ?one, skip_next_dashes := b \<rparr>, True)"
    and sl: "section_lines (skip_next_dashes st) (line # body) = ?one @ section_lines b body"
    by blast
  let ?st = "st \<lparr> section_content := section_content st @ ?one, skip_next_dashes := b \<rparr>"
  from Cons.IH [OF body, of ?st] Cons.prems(2) obtain b' where
    "split_loop ?st (body @ rs)
       = split_loop (?st \<lparr> section_content :=
                              section_content ?st @ section_lines (skip_next_dashes ?st) body,
                            skip_next_dashes := b' \<rparr>) rs"
    by auto
  with step sl have "split_loop st ((line # body) @ rs)
       = split_loop (st \<lparr> section_content :=
                            section_content st
                              @ section_lines (skip_next_dashes st) (line # body),
                          skip_next_dashes := b' \<rparr>) rs"
    by simp
  then show ?case by blast
qed

lemma split_sections_body:
  assumes h: "section_of_name (str_strip h) = Some s"
    and later: "list_all (\<lambda>l. section_of_name (str_strip l) \<noteq> Some s) (read_lines post)"
  shows "split_sections (h # post) s
       = str_strip (str_join_nl (section_lines True (section_body post)))"
proof -
  let ?P = "\<lambda>l. section_of_name (str_strip l) = None \<and> \<not> is_terminal l"
  let ?init = "\<lparr> sections = (\<lambda>s. []), current_section = None, section_content = [],
          skip_next_dashes = False \<rparr>"
  let ?st = "\<lparr> sections = (\<lambda>s. []), current_section = Some s, section_content = [],
          skip_next_dashes = True \<rparr>"
  define body where "body = section_body post"
  define rs where "rs = dropWhile ?P post"
  have post: "post = body @ rs" by (simp add: body_def rs_def section_body_def)
  have body: "list_all ?P body"
    unfolding body_def section_body_def list_all_iff by (auto dest: set_takeWhileD)
  then have bnt: "list_all (\<lambda>l. \<not> is_terminal l) body"
    by (simp add: list_all_iff)
  have hd: "rs = [] \<or> \<not> ?P (hd rs)"
    unfolding rs_def using hd_dropWhile [of ?P post] by blast
  have "split_step ?init h = (?st, True)"
    using h by (simp add: split_step_def save_section_def)
  then have a: "split_loop ?init (h # post) = split_loop ?st post" by simp
  obtain b where b: "split_loop ?st (body @ rs)
      = split_loop (?st \<lparr> section_content := section_content ?st
                              @ section_lines (skip_next_dashes ?st) body,
                           skip_next_dashes := b \<rparr>) rs"
    using split_loop_body [OF body, of ?st s rs] by auto
  let ?st1 = "\<lparr> sections = (\<lambda>s. []), current_section = Some s,
                 section_content = section_lines True body, skip_next_dashes = b \<rparr>"
  from a b have c: "split_loop ?init (h # post) = split_loop ?st1 rs"
    unfolding post by simp
  have "sections (save_section (split_loop ?st1 rs)) s
      = str_strip (str_join_nl (section_lines True body))"
  proof (cases rs)
    case Nil
    then show ?thesis by (simp add: save_section_def)
  next
    case (Cons t rest)
    with hd have nP: "\<not> ?P t" by simp
    show ?thesis
    proof (cases "is_terminal t")
      case True
      with Cons show ?thesis by (simp add: terminal_step save_section_def)
    next
      case False
      with nP obtain s' where s': "section_of_name (str_strip t) = Some s'" by auto
      from post Cons have "read_lines post = read_lines (body @ [t] @ rest)" by simp
      also have "\<dots> = body @ read_lines ([t] @ rest)" by (rule read_lines_append [OF bnt])
      also have "\<dots> = body @ [t] @ read_lines rest"
        using False by (simp add: read_lines_def)
      finally have rl: "read_lines post = body @ [t] @ read_lines rest" .
      from later have ns: "section_of_name (str_strip t) \<noteq> Some s"
        and rest: "list_all (\<lambda>l. section_of_name (str_strip l) \<noteq> Some s) (read_lines rest)"
        unfolding rl by simp_all
      let ?st2 = "(save_section ?st1) \<lparr> current_section := Some s', section_content := [],
                                        skip_next_dashes := True \<rparr>"
      from s' have step: "split_step ?st1 t = (?st2, True)" by (simp add: split_step_def)
      from s' ns have "current_section ?st2 \<noteq> Some s" by simp
      from split_loop_other [OF this rest]
      have "sections (save_section (split_loop ?st2 rest)) s = sections ?st2 s" .
      with Cons step show ?thesis by (simp add: save_section_def)
    qed
  qed
  with c show ?thesis by (simp add: split_sections_def body_def)
qed

text \<open>
  C10, as the code has it. Scanning ends at the first line that starts with
  \<open>LOOKING AHEAD\<close> (the terminal marker): the lines from there on are never read, so
  the sections of a document are those of its lines before the marker. Let \<open>h\<close> be an
  occurrence of the header of a section that is read (no marker among the lines
  \<open>pre\<close> before it) and the last one that is read (no header of the same section among
  the lines after it that are read). Then the text returned for the section is exactly
  the content that follows \<open>h\<close>: the lines after \<open>h\<close> up to the next header of any
  section, the marker or the end of the document, without the line of dashes under the
  header, joined by line feeds and trimmed. Whatever was stored for the section before
  \<open>h\<close>, also under an earlier occurrence of the same header, is discarded.
\<close>

theorem repeated_header_keeps_last:
  assumes "str_split_nl content = pre @ h # post"
    and "section_of_name (str_strip h) = Some s"
    and "list_all (\<lambda>l. \<not> is_terminal l) pre"
    and "list_all (\<lambda>l. section_of_name (str_strip l) \<noteq> Some s) (read_lines post)"
  shows "parse_markdown_file content s
           = str_strip (str_join_nl (section_lines True (section_body post)))
       \<and> parse_markdown_file content = split_sections (read_lines (str_split_nl content))"
proof
  from assms show "parse_markdown_file content s
      = str_strip (str_join_nl (section_lines True (section_body post)))"
    by (simp add: parse_markdown_file_def split_sections_from_header split_sections_body)
next
  show "parse_markdown_file content = split_sections (read_lines (str_split_nl content))"
    unfolding parse_markdown_file_def by (rule split_sections_read)
qed

theorem repeated_header_keeps_last_witness:
  "parse_markdown_file
     (u ''HIGHLIGHTS\<newline>old\<newline>HIGHLIGHTS\<newline>----------\<newline>new\<newline>BUSINESS\<newline>b\<newline>LOOKING AHEAD\<newline>HIGHLIGHTS\<newline>late'')
     HIGHLIGHTS
   = u ''new''"
proof -
  let ?doc = "u ''HIGHLIGHTS\<newline>old\<newline>HIGHLIGHTS\<newline>----------\<newline>new\<newline>BUSINESS\<newline>b\<newline>LOOKING AHEAD\<newline>HIGHLIGHTS\<newline>late''"
  let ?post = "[u ''----------'', u ''new'', u ''BUSINESS'', u ''b'', u ''LOOKING AHEAD'',
                u ''HIGHLIGHTS'', u ''late'']"
  have l: "str_split_nl ?doc = [u ''HIGHLIGHTS'', u ''old''] @ u ''HIGHLIGHTS'' # ?post"
    by (simp add: u_def)
  have h: "section_of_name (str_strip (u ''HIGHLIGHTS'')) = Some HIGHLIGHTS"
    by (simp add: section_of_name_def section_key_def text_defs)
  have p: "list_all (\<lambda>l. \<not> is_terminal l) [u ''HIGHLIGHTS'', u ''old'']"
    by (simp add: is_terminal_def text_defs)
  have n: "list_all (\<lambda>l. section_of_name (str_strip l) \<noteq> Some HIGHLIGHTS) (read_lines ?post)"
    by (simp add: read_lines_def is_terminal_def section_of_name_def section_key_def text_defs)
  have j: "str_strip (str_join_nl (section_lines True (section_body ?post))) = u ''new''"
    by (simp add: section_body_def is_terminal_def section_of_name_def section_key_def
        text_defs)
  from conjunct1 [OF repeated_header_keeps_last [OF l h p n]]
  show ?thesis by (simp only: j)
qed

text \<open>
  C10, as the claim states it, fails for an occurrence of the header after the terminal
  marker: it is never read, and the text of the occurrence before the marker is returned.
\<close>

theorem header_after_marker_is_not_read:
  "parse_markdown_file
     (u ''HIGHLIGHTS\<newline>old\<newline>LOOKING AHEAD\<newline>HIGHLIGHTS\<newline>new'') HIGHLIGHTS
   = u ''old''"
  by (simp add: parse_markdown_file_def split_sections_def split_step_def save_section_def
      section_of_name_def section_key_def text_defs)

section \<open>Properties of the simple sections\<close>

lemmas item_defs = link_at_def clean_item_def append_description_def capture_link_def

lemmas simple_defs = parse_simple_section_def highlight_line_def products_content_def

text \<open>
  C7. The claim: one bold-wrapped line right after a new title is swallowed, and any other
  line ends the suppression. The code ends it only on a line that does not start with
  \<open>**[\<close>: a line that starts with \<open>**[\<close> and does not end with \<open>**\<close> is added to
  the description and leaves the flag set, so the bold-wrapped line after it is swallowed
  although it does not follow the title. Here the fourth line is lost.
\<close>

theorem products_swallows_later_bold_line:
  "parse_simple_section
     (u ''Title\<newline>-----------\<newline>**[a](b)** more\<newline>**[c](d)**'') PRODUCTS
   = [\<lparr> title = Some (u ''Title''), description = u ''**a** more'',
        reference_link = Some (u ''b'') \<rparr>]"
  by (simp add: text_defs item_defs simple_defs)

section \<open>Properties of the sections with subcategories\<close>

lemmas cat_defs =
  subcategory_mapping_def is_set_def append_item_def save_plain_def save_item_def
  detect_subcategory_def auto_detect_def is_date_suffix_def strip_date_suffix_def
  research_rules_def header_rules_def technology_filter_def title_rule_def item_header_def
  header_item_rule_def business_names_def is_bullet_def bullet_rule_def content_rule_def
  cat_step_def parse_categorized_section_def ascii_lower_def

text \<open>
  C2, as the code has it. The BUSINESS section of scenario B gives one item, with the
  title \<open>Funding Update\<close>, the description \<open>See here\<close> and the link
  \<open>https://x.com\<close>, under \<open>Funding & Investment\<close>: no subcategory is open at the
  title, and the title contains the keyword \<open>funding\<close> of the first row of the table.
\<close>

theorem scenario_b_funding:
  "parse_categorized_section ascii_lower ascii_digit
     (u ''Funding Update\<newline>------------\<newline>See [here](https://x.com)'') BUSINESS
   = Inr [(u ''Funding & Investment'',
            [\<lparr> title = Some (u ''Funding Update''), description = u ''See here'',
               reference_link = Some (u ''https://x.com'') \<rparr>]),
          (u ''Company Updates'', []),
          (u ''Regulatory Developments'', []),
          (u ''Market Trends'', [])]"
  by (simp add: cat_defs text_defs item_defs)

text \<open>C2, as the claim states it, fails: nothing is placed under \<open>Company Updates\<close>.\<close>

theorem scenario_b_not_company_updates:
  "subcategory_items
     (parse_categorized_section ascii_lower ascii_digit
        (u ''Funding Update\<newline>------------\<newline>See [here](https://x.com)'') BUSINESS)
     (u ''Company Updates'') = []"
  by (simp add: subcategory_items_def cat_defs text_defs item_defs)

section \<open>The categorized parser never raises\<close>

lemma table_keys:
  assumes "map_of subcategory_mapping s = Some table"
  shows "(s = BUSINESS \<and> map fst table = [u ''Funding & Investment'', u ''Company Updates'',
             u ''Regulatory Developments'', u ''Market Trends''])
       \<or> (s = TECHNOLOGY \<and> map fst table = [u ''Open Source Projects'', u ''Models & Datasets'',
             u ''Developer Tools & Demos''])
       \<or> (s = RESEARCH \<and> map fst table = [u ''Paper of the Week'', u ''Notable Research''])"
  using assms by (cases s) (auto simp add: subcategory_mapping_def)

lemma table_keys_nonempty:
  assumes "map_of subcategory_mapping s = Some table" and "k \<in> set (map fst table)"
  shows "k \<noteq> []"
  using table_keys [OF assms(1)] assms(2) by (auto simp add: u_def)

lemma detect_ok:
  assumes "map_of subcategory_mapping s = Some table"
  shows "\<exists>k. detect_subcategory L tx s table = Inr k \<and> k \<in> set (map fst table)"
proof (cases "List.find (\<lambda>(subcategory, keywords).
                 list_ex (\<lambda>keyword. str_contains (L tx) keyword) keywords) table")
  case None
  with table_keys [OF assms] show ?thesis
    by (auto simp add: detect_subcategory_def)
next
  case (Some p)
  obtain k kws where p: "p = (k, kws)" by (cases p)
  from Some have "p \<in> set table"
    by (auto simp add: find_Some_iff dest: nth_mem)
  with p have "k \<in> set (map fst table)" by force
  with Some p show ?thesis
    by (simp add: detect_subcategory_def)
qed

lemma auto_detect_ok:
  assumes "map_of subcategory_mapping s = Some table"
    and "case cur of None \<Rightarrow> True | Some k \<Rightarrow> k \<noteq> [] \<and> k \<in> set (map fst table)"
  shows "\<exists>k. auto_detect L s table cur tx = Inr (Some k) \<and> k \<noteq> []
           \<and> k \<in> set (map fst table)"
proof (cases cur)
  case None
  obtain k where k: "detect_subcategory L tx s table = Inr k" "k \<in> set (map fst table)"
    using detect_ok [OF assms(1)] by blast
  from k(2) have "k \<noteq> []" by (rule table_keys_nonempty [OF assms(1)])
  with None k show ?thesis
    by (simp add: auto_detect_def is_set_def)
next
  case (Some k)
  with assms(2) show ?thesis
    by (simp add: auto_detect_def is_set_def)
qed

lemma set_update_subset:
  "set (AList.update k v al) \<subseteq> insert (k, v) (set al)"
  by (induct al) auto

lemma append_item_ok:
  assumes "all_lists res" and "k \<in> set (map fst res)"
  shows "\<exists>r. append_item res k it = Inr r \<and> map fst r = map fst res \<and> all_lists r"
proof -
  from assms(2) obtain v where v: "map_of res k = Some v"
    by (cases "map_of res k") (auto simp add: map_of_eq_None_iff)
  then have "(k, v) \<in> set res" by (rule map_of_SomeD)
  with assms(1) obtain xs where xs: "v = Items xs"
    by (cases v) (auto simp add: all_lists_def list_all_iff)
  have "set (AList.update k (Items (xs @ [it])) res)
          \<subseteq> insert (k, Items (xs @ [it])) (set res)"
    by (rule set_update_subset)
  with assms(1) have "all_lists (AList.update k (Items (xs @ [it])) res)"
    by (auto simp add: all_lists_def list_all_iff)
  with v xs assms(2) show ?thesis
    by (simp add: append_item_def update_keys)
qed

lemma save_plain_ok:
  assumes "state_ok table st"
  shows "\<exists>r. save_plain st = Inr r \<and> map fst r = map fst table \<and> all_lists r"
proof (cases "current_item st")
  case None
  with assms show ?thesis by (simp add: save_plain_def state_ok_def)
next
  case (Some it)
  show ?thesis
  proof (cases "current_subcategory st")
    case None
    with Some assms show ?thesis by (simp add: save_plain_def state_ok_def)
  next
    case (Some k)
    with assms have "all_lists (result st)" "k \<in> set (map fst (result st))" "k \<noteq> []"
      and keys: "map fst (result st) = map fst table"
      by (simp_all add: state_ok_def)
    from append_item_ok [OF this(1,2), of it] \<open>current_item st = Some it\<close> Some \<open>k \<noteq> []\<close> keys
    show ?thesis by (auto simp add: save_plain_def)
  qed
qed

lemma save_item_plain:
  "s \<noteq> RESEARCH \<or> current_item st = None \<Longrightarrow> save_item s st = save_plain st"
  by (auto simp add: save_item_def save_plain_def split: option.splits)


lemma step_ok_Inr [simp]: "step_ok table (Inr (st', two)) = state_ok table st'"
  by (simp add: step_ok_def)

lemma state_ok_item [simp]:
  "state_ok table (st \<lparr> current_item := c \<rparr>) = state_ok table st"
  by (simp add: state_ok_def)

lemma state_ok_subcategory:
  "state_ok table st \<Longrightarrow> k \<noteq> [] \<Longrightarrow> k \<in> set (map fst table) \<Longrightarrow>
     state_ok table (st \<lparr> current_subcategory := Some k \<rparr>)"
  by (simp add: state_ok_def)

lemma new_item_ok:
  assumes "map_of subcategory_mapping s = Some table" and "state_ok table st"
    and "save_item s st = save_plain st"
  shows "step_ok table
           (case save_item s st of
              Inl e \<Rightarrow> Inl e
            | Inr r \<Rightarrow>
                (case auto_detect L s table (current_subcategory st) tx of
                   Inl e \<Rightarrow> Inl e
                 | Inr c \<Rightarrow>
                     Inr (\<lparr> result = r, current_subcategory = c, current_item = it \<rparr>, two)))"
proof -
  obtain r where r: "save_plain st = Inr r" "map fst r = map fst table" "all_lists r"
    using save_plain_ok [OF assms(2)] by blast
  from assms(2) have
    "case current_subcategory st of None \<Rightarrow> True | Some k \<Rightarrow> k \<noteq> [] \<and> k \<in> set (map fst table)"
    by (simp add: state_ok_def)
  from auto_detect_ok [OF assms(1) this, of L tx] obtain k where
    k: "auto_detect L s table (current_subcategory st) tx = Inr (Some k)" "k \<noteq> []"
       "k \<in> set (map fst table)"
    by blast
  from r k assms(3) show ?thesis
    by (simp add: state_ok_def)
qed

lemma research_rules_open:
  "research_rules L dv st line rest = None \<Longrightarrow> current_item st = None"
  by (simp add: research_rules_def split: if_splits option.splits)

lemma research_rules_ok:
  assumes t: "map_of subcategory_mapping RESEARCH = Some table"
    and ok: "state_ok table st"
    and r: "research_rules L dv st line rest = Some r"
  shows "step_ok table r"
proof -
  from table_keys [OF t] have keys:
    "map fst table = [u ''Paper of the Week'', u ''Notable Research'']"
    by simp
  have potw: "u ''Paper of the Week'' \<noteq> []" "u ''Paper of the Week'' \<in> set (map fst table)"
    and nr: "u ''Notable Research'' \<noteq> []" "u ''Notable Research'' \<in> set (map fst table)"
    by (simp_all add: keys) (simp_all add: u_def)
  consider
      (day) "str_contains (L line) (u ''paper of the day'')"
    | (notable) "\<not> str_contains (L line) (u ''paper of the day'')"
        "str_contains (L line) (u ''notable research'')"
    | (paper) "\<not> str_contains (L line) (u ''paper of the day'')"
        "\<not> str_contains (L line) (u ''notable research'')"
        "startswith line (u ''['') \<and> str_contains line (u '']('') \<and> str_contains line (u '')'')"
    | (other) "\<not> str_contains (L line) (u ''paper of the day'')"
        "\<not> str_contains (L line) (u ''notable research'')"
        "\<not> (startswith line (u ''['') \<and> str_contains line (u '']('')
            \<and> str_contains line (u '')''))"
    by blast
  then show ?thesis
  proof cases
    case day
    from ok potw have "state_ok table (st \<lparr> current_subcategory := Some (u ''Paper of the Week'') \<rparr>)"
      by (rule state_ok_subcategory)
    with r day show ?thesis
      by (auto simp add: research_rules_def)
  next
    case notable
    show ?thesis
    proof (cases "current_item st \<noteq> None
                  \<and> current_subcategory st = Some (u ''Paper of the Week'')")
      case True
      then obtain it where it: "current_item st = Some it" by auto
      from ok have "all_lists (result st)"
        "u ''Paper of the Week'' \<in> set (map fst (result st))"
        using potw by (simp_all add: state_ok_def)
      from append_item_ok [OF this, of it] obtain res where
        res: "append_item (result st) (u ''Paper of the Week'') it = Inr res"
          "map fst res = map fst (result st)" "all_lists res"
        by blast
      from ok res nr have "state_ok table
          (st \<lparr> result := res, current_item := None,
                 current_subcategory := Some (u ''Notable Research'') \<rparr>)"
        by (simp add: state_ok_def)
      with notable True it res r show ?thesis
        by (auto simp add: research_rules_def)
    next
      case False
      from ok nr have "state_ok table
          (st \<lparr> current_subcategory := Some (u ''Notable Research'') \<rparr>)"
        by (simp add: state_ok_subcategory)
      with notable False r show ?thesis
        by (auto simp add: research_rules_def split: option.splits)
    qed
  next
    case paper
    obtain res where res: "save_plain st = Inr res" "map fst res = map fst table"
        "all_lists res"
      using save_plain_ok [OF ok] by blast
    from ok potw have "case (if is_set (current_subcategory st) then current_subcategory st
                  else Some (u ''Paper of the Week'')) of
              None \<Rightarrow> True | Some k \<Rightarrow> k \<noteq> [] \<and> k \<in> set (map fst table)"
      by (auto simp add: state_ok_def is_set_def split: option.splits)
    with paper res r show ?thesis
      by (auto simp add: research_rules_def state_ok_def)
  next
    case other
    with r ok show ?thesis
      by (auto simp add: research_rules_def split: if_splits option.splits)
  qed
qed

lemma header_rules_ok:
  assumes t: "map_of subcategory_mapping s = Some table"
    and ok: "state_ok table st"
    and r: "header_rules L s table st line rest = Some (st', two)"
  shows "state_ok table st'"
proof (cases "List.find
             (\<lambda>subcategory.
                str_contains (L line) (L subcategory)
                \<and> (startswith line (u ''###'') \<or> startswith line (u ''##'')
                   \<or> underline_follows 5 rest))
             (map fst table)")
  case (Some k)
  then have k: "k \<in> set (map fst table)"
    by (auto simp add: find_Some_iff dest: nth_mem)
  then have "k \<noteq> []" by (rule table_keys_nonempty [OF t])
  with ok have "state_ok table (st \<lparr> current_subcategory := Some k \<rparr>)"
    using k by (rule state_ok_subcategory)
  with Some r show ?thesis
    by (auto simp add: header_rules_def)
next
  case None
  show ?thesis
  proof (cases "s = BUSINESS")
    case True
    with table_keys [OF t] have
      "u ''Market Trends'' \<in> set (map fst table)" "u ''Company Updates'' \<in> set (map fst table)"
      by simp_all
    moreover have "u ''Market Trends'' \<noteq> []" "u ''Company Updates'' \<noteq> []"
      by (simp_all add: u_def)
    ultimately have
      "state_ok table (st \<lparr> current_subcategory := Some (u ''Market Trends'') \<rparr>)"
      "state_ok table (st \<lparr> current_subcategory := Some (u ''Company Updates'') \<rparr>)"
      using ok by (simp_all add: state_ok_subcategory)
    with None True r show ?thesis
      by (auto simp add: header_rules_def Let_def split: if_splits)
  next
    case False
    with None r show ?thesis by (simp add: header_rules_def)
  qed
qed

lemma title_rule_ok:
  assumes t: "map_of subcategory_mapping s = Some table"
    and ok: "state_ok table st"
    and r: "title_rule L s table st line rest = Some r"
  shows "step_ok table r"
proof -
  from r have s: "s = BUSINESS \<or> s = PRODUCTS"
    by (simp add: title_rule_def split: if_splits)
  then have "save_item s st = save_plain st"
    by (intro save_item_plain) auto
  from new_item_ok [where L = L and tx = line and two = True
      and it = "Some \<lparr> title = Some line, description = [], reference_link = None \<rparr>",
      OF t ok this] r
  show ?thesis
    by (auto simp add: title_rule_def split: if_splits)
qed

lemma header_item_rule_ok:
  assumes t: "map_of subcategory_mapping s = Some table"
    and ok: "state_ok table st"
    and c: "s \<noteq> RESEARCH \<or> current_item st = None"
    and r: "header_item_rule L s table st line = Some r"
  shows "step_ok table r"
proof -
  from c have sv: "save_item s st = save_plain st" by (rule save_item_plain)
  from r obtain t' d where hd: "item_header line = Some (t', d)"
    by (auto simp add: header_item_rule_def split: option.splits)
  from new_item_ok [where L = L and tx = "t' @ 32 # line" and two = False
      and it = "Some \<lparr> title = Some (strip_links t'), description = strip_links d,
              reference_link = extract_link_from_text (t' @ 32 # d) \<rparr>",
      OF t ok sv] r hd
  show ?thesis
    by (auto simp add: header_item_rule_def)
qed

lemma bullet_rule_ok:
  assumes t: "map_of subcategory_mapping s = Some table"
    and ok: "state_ok table st"
    and c: "s \<noteq> RESEARCH \<or> current_item st = None"
    and r: "bullet_rule L s table st line = Some r"
  shows "step_ok table r"
proof (cases "s = BUSINESS \<and> current_item st \<noteq> None")
  case True
  with r ok show ?thesis
    by (auto simp add: bullet_rule_def Let_def split: if_splits)
next
  case False
  from c have sv: "save_item s st = save_plain st" by (rule save_item_plain)
  let ?d = "str_strip (drop 1 line)"
  let ?r = "case save_item s st of
              Inl e \<Rightarrow> Inl e
            | Inr r \<Rightarrow>
                (case auto_detect L s table (current_subcategory st) ?d of
                   Inl e \<Rightarrow> Inl e
                 | Inr c \<Rightarrow>
                     Inr (\<lparr> result = r, current_subcategory = c,
                            current_item =
                              Some \<lparr> title = None, description = strip_links ?d,
                                     reference_link = extract_link_from_text ?d \<rparr> \<rparr>,
                          False))"
  have "step_ok table ?r"
    by (rule new_item_ok [OF t ok sv])
  moreover from r False have "r = ?r"
    by (auto simp add: bullet_rule_def Let_def simp del: One_nat_def split: if_splits)
  ultimately show ?thesis by (simp only:)
qed

lemma content_rule_ok:
  "state_ok table st \<Longrightarrow> state_ok table (content_rule st line)"
  by (simp add: content_rule_def split: option.splits)

lemma cat_step_ok:
  assumes t: "map_of subcategory_mapping s = Some table"
    and ok: "state_ok table st"
  shows "step_ok table (cat_step L dv s table st line rest)"
proof (cases "s = RESEARCH \<and> research_rules L dv st line rest \<noteq> None")
  case True
  then obtain r where r: "research_rules L dv st line rest = Some r" by auto
  from True t have "map_of subcategory_mapping RESEARCH = Some table" by simp
  from research_rules_ok [OF this ok r] True r show ?thesis
    by (simp add: cat_step_def)
next
  case False
  then have c: "s \<noteq> RESEARCH \<or> current_item st = None"
    by (auto dest: research_rules_open)
  from False have first: "(if s = RESEARCH then research_rules L dv st line rest else None) = None"
    by auto
  show ?thesis
  proof (cases "header_rules L s table st line rest")
    case (Some p)
    obtain st' two where p: "p = (st', two)" by (cases p)
    from header_rules_ok [OF t ok] Some p first show ?thesis
      by (simp add: cat_step_def)
  next
    case None
    note hdr = None
    show ?thesis
    proof (cases "technology_filter L s line")
      case True
      with first hdr ok show ?thesis by (simp add: cat_step_def)
    next
      case False
      note tech = False
      show ?thesis
      proof (cases "title_rule L s table st line rest")
        case (Some r)
        from title_rule_ok [OF t ok Some] first hdr tech Some show ?thesis
          by (simp add: cat_step_def)
      next
        case None
        note ttl = None
        show ?thesis
        proof (cases "header_item_rule L s table st line")
          case (Some r)
          from header_item_rule_ok [OF t ok c Some] first hdr tech ttl Some show ?thesis
            by (simp add: cat_step_def)
        next
          case None
          note hi = None
          show ?thesis
          proof (cases "business_names s line")
            case True
            with first hdr tech ttl hi ok show ?thesis by (simp add: cat_step_def)
          next
            case False
            note bn = False
            show ?thesis
            proof (cases "bullet_rule L s table st line")
              case (Some r)
              from bullet_rule_ok [OF t ok c Some] first hdr tech ttl hi bn Some show ?thesis
                by (simp add: cat_step_def)
            next
              case None
              with first hdr tech ttl hi bn content_rule_ok [OF ok, of line] show ?thesis
                by (simp add: cat_step_def)
            qed
          qed
        qed
      qed
    qed
  qed
qed

lemma cat_loop_ok:
  assumes "map_of subcategory_mapping s = Some table" and "state_ok table st"
  shows "\<exists>st'. cat_loop L dv s table st ls = Inr st' \<and> state_ok table st'"
  using assms
proof (induction L dv s table st ls rule: cat_loop.induct)
  case (1 L dv s table st)
  then show ?case by simp
next
  case (2 L dv s table st line rest)
  show ?case
  proof (cases "line = [] \<or> is_delimiter line")
    case True
    with 2 show ?thesis by auto
  next
    case False
    from cat_step_ok [OF "2.prems", of L dv line rest] obtain st' two where
      step: "cat_step L dv s table st line rest = Inr (st', two)" and ok: "state_ok table st'"
      by (auto simp add: step_ok_def split: sum.splits)
    from False have "line \<noteq> []" "\<not> is_delimiter line" by simp_all
    from "2.IH"(3) [OF this step refl "2.prems"(1) ok] step False show ?thesis
      by simp
  qed
qed

lemma clean_result_ok:
  "all_lists r \<Longrightarrow> \<exists>d. clean_result r = Inr d \<and> map fst d = map fst r"
proof (induction r)
  case Nil
  then show ?case by simp
next
  case (Cons p r)
  obtain k v where p: "p = (k, v)" by (cases p)
  from Cons.prems p obtain xs where v: "v = Items xs" and r: "all_lists r"
    by (cases v) (auto simp add: all_lists_def)
  from Cons.IH [OF r] p v show ?case by auto
qed

lemma parse_categorized_section_ok:
  assumes "map_of subcategory_mapping s = Some table"
  shows "\<exists>d. parse_categorized_section L dv content s = Inr d \<and> map fst d = map fst table"
proof -
  let ?init = "\<lparr> result = map (\<lambda>subcategory. (subcategory, Items [])) (map fst table),
                     current_subcategory = None, current_item = None \<rparr>"
  have "state_ok table ?init"
    by (simp add: state_ok_def all_lists_def list_all_iff comp_def)
  from cat_loop_ok [OF assms this] obtain st where
    st: "cat_loop L dv s table ?init (stripped_lines content) = Inr st" "state_ok table st"
    by blast
  from save_plain_ok [OF st(2)] obtain r where
    r: "save_plain st = Inr r" "map fst r = map fst table" "all_lists r"
    by blast
  from clean_result_ok [OF r(3)] obtain d where "clean_result r = Inr d" "map fst d = map fst r"
    by blast
  with assms st r show ?thesis
    by (simp add: parse_categorized_section_def)
qed

section \<open>The keys of the output structure\<close>

lemma map_of_json_schema:
  "map_of (json_schema j) s = map_option value_schema (map_of j s)"
  by (induction j) (auto simp add: json_schema_def)

lemma json_schema_update:
  assumes "map_of j s = Some v0" and "value_schema v = value_schema v0"
  shows "json_schema (AList.update s v j) = json_schema j"
  using assms by (induction j) (auto simp add: json_schema_def)

lemma schema_list:
  assumes "json_schema j = fixed_schema" and "s = HIGHLIGHTS \<or> s = PRODUCTS"
  shows "\<exists>ys. map_of j s = Some (JList ys)"
proof -
  from assms(2) have "map_of fixed_schema s = Some None"
    by (auto simp add: fixed_schema_def)
  with assms(1) have "map_option value_schema (map_of j s) = Some None"
    by (simp add: map_of_json_schema [symmetric])
  then obtain v where v: "map_of j s = Some v" "value_schema v = None"
    by auto
  then show ?thesis
    by (cases v) (simp_all add: value_schema_def)
qed

lemma schema_dict:
  assumes "json_schema j = fixed_schema" and "map_of subcategory_mapping s = Some table"
  shows "\<exists>d. map_of j s = Some (JDict d) \<and> map fst d = map fst table"
proof -
  from table_keys [OF assms(2)] have "map_of fixed_schema s = Some (Some (map fst table))"
    by (auto simp add: fixed_schema_def)
  with assms(1) have "map_option value_schema (map_of j s) = Some (Some (map fst table))"
    by (simp add: map_of_json_schema [symmetric])
  then obtain v where v: "map_of j s = Some v" "value_schema v = Some (map fst table)"
    by auto
  then show ?thesis
    by (cases v) (simp_all add: value_schema_def)
qed

lemma extend_list_ok:
  assumes "json_schema j = fixed_schema" and "s = HIGHLIGHTS \<or> s = PRODUCTS"
  shows "\<exists>j'. extend_list j s xs = Inr j' \<and> json_schema j' = fixed_schema"
proof -
  from schema_list [OF assms] obtain ys where ys: "map_of j s = Some (JList ys)" by blast
  have "json_schema (AList.update s (JList (ys @ xs)) j) = json_schema j"
    by (rule json_schema_update [OF ys]) (simp add: value_schema_def)
  with ys assms(1) show ?thesis by (simp add: extend_list_def)
qed

lemma extend_sub_ok:
  assumes "json_schema j = fixed_schema" and "map_of subcategory_mapping s = Some table"
    and "k \<in> set (map fst table)"
  shows "\<exists>j'. extend_sub j s k xs = Inr j' \<and> json_schema j' = fixed_schema"
proof -
  from schema_dict [OF assms(1,2)] obtain d where
    d: "map_of j s = Some (JDict d)" "map fst d = map fst table"
    by blast
  from assms(3) d(2) have "k \<in> set (map fst d)" by simp
  then have "map_of d k \<noteq> None" by (simp add: map_of_eq_None_iff)
  then obtain ys where ys: "map_of d k = Some ys" by auto
  have "json_schema (AList.update s (JDict (AList.update k (ys @ xs) d)) j) = json_schema j"
    using d(2) assms(3)
    by (intro json_schema_update [OF d(1)]) (simp add: value_schema_def update_keys)
  with d ys assms(1) show ?thesis by (simp add: extend_sub_def)
qed

lemma extend_all_ok:
  assumes "json_schema j = fixed_schema" and "map_of subcategory_mapping s = Some table"
    and "set (map fst d) \<subseteq> set (map fst table)"
  shows "\<exists>j'. extend_all j s d = Inr j' \<and> json_schema j' = fixed_schema"
  using assms
proof (induction d arbitrary: j)
  case Nil
  then show ?case by simp
next
  case (Cons p d)
  obtain k xs where p: "p = (k, xs)" by (cases p)
  with Cons.prems have k: "k \<in> set (map fst table)"
    and d: "set (map fst d) \<subseteq> set (map fst table)"
    by auto
  from extend_sub_ok [OF Cons.prems(1,2) k, of xs] obtain j1 where
    j1: "extend_sub j s k xs = Inr j1" "json_schema j1 = fixed_schema"
    by blast
  from Cons.IH [OF j1(2) Cons.prems(2) d] p j1 show ?case by simp
qed

lemma merge_one_ok:
  assumes "json_schema j = fixed_schema"
  shows "\<exists>j'. merge_one L dv j s f = Inr j' \<and> json_schema j' = fixed_schema"
proof (cases "str_strip (f s) \<noteq> []")
  case False
  with assms show ?thesis by (simp add: merge_one_def)
next
  case True
  show ?thesis
  proof (cases "s = HIGHLIGHTS \<or> s = PRODUCTS")
    case True
    from extend_list_ok [OF assms True, of "parse_simple_section (f s) s"]
      \<open>str_strip (f s) \<noteq> []\<close> True
    show ?thesis by (auto simp add: merge_one_def parse_section_items_def)
  next
    case False
    then have cat: "s = BUSINESS \<or> s = TECHNOLOGY \<or> s = RESEARCH" by (cases s) auto
    then obtain table where t: "map_of subcategory_mapping s = Some table"
      by (auto simp add: subcategory_mapping_def)
    from parse_categorized_section_ok [OF t, of L dv "f s"] obtain d where
      d: "parse_categorized_section L dv (f s) s = Inr d" "map fst d = map fst table"
      by blast
    from d(2) have "set (map fst d) \<subseteq> set (map fst table)" by simp
    from extend_all_ok [OF assms t this] obtain j' where
      "extend_all j s d = Inr j'" "json_schema j' = fixed_schema"
      by blast
    with d \<open>str_strip (f s) \<noteq> []\<close> False cat show ?thesis
      by (simp add: merge_one_def parse_section_items_def)
  qed
qed

lemma merge_files_ok:
  assumes "json_schema j = fixed_schema"
  shows "\<exists>j'. merge_files L dv j s fs = Inr j' \<and> json_schema j' = fixed_schema"
  using assms
proof (induction fs arbitrary: j)
  case Nil
  then show ?case by simp
next
  case (Cons f fs)
  from merge_one_ok [OF Cons.prems, of L dv s f] obtain j1 where
    j1: "merge_one L dv j s f = Inr j1" "json_schema j1 = fixed_schema"
    by blast
  from Cons.IH [OF j1(2)] j1(1) show ?case by simp
qed

lemma merge_sections_ok:
  assumes "json_schema j = fixed_schema"
  shows "\<exists>j'. merge_sections L dv j ss fs = Inr j' \<and> json_schema j' = fixed_schema"
  using assms
proof (induction ss arbitrary: j)
  case Nil
  then show ?case by simp
next
  case (Cons s ss)
  from merge_files_ok [OF Cons.prems, of L dv s fs] obtain j1 where
    j1: "merge_files L dv j s fs = Inr j1" "json_schema j1 = fixed_schema"
    by blast
  from Cons.IH [OF j1(2)] j1(1) show ?case by simp
qed

lemma json_data_init_schema: "json_schema json_data_init = fixed_schema"
  by (simp add: json_schema_def json_data_init_def fixed_schema_def value_schema_def)

section \<open>The items of the output structure\<close>

lemma clean_item_ok: "clean_item it = Some c \<Longrightarrow> item_ok c"
  by (auto simp add: clean_item_def item_ok_def Let_def split: if_splits)

lemma clean_items_ok: "list_all item_ok (clean_items xs)"
  by (induction xs) (auto simp add: clean_item_ok split: option.splits)

lemma parse_simple_section_ok: "list_all item_ok (parse_simple_section content s)"
  by (simp add: parse_simple_section_def clean_items_ok split: prod.splits)

lemma clean_result_items:
  "clean_result r = Inr d \<Longrightarrow> list_all item_ok (concat (map snd d))"
proof (induction r arbitrary: d)
  case Nil
  then show ?case by simp
next
  case (Cons p r)
  obtain k v where p: "p = (k, v)" by (cases p)
  from Cons.prems p obtain xs d' where
    "v = Items xs" "clean_result r = Inr d'" "d = (k, clean_items xs) # d'"
    by (auto split: slot.splits sum.splits)
  with Cons.IH [of d'] show ?case by (simp add: clean_items_ok)
qed

lemma parse_categorized_section_items:
  "parse_categorized_section L dv content s = Inr d \<Longrightarrow> list_all item_ok (concat (map snd d))"
  by (auto simp add: parse_categorized_section_def clean_result_items
      split: option.splits sum.splits)

lemma json_items_update:
  "set (json_items (AList.update s v j)) \<subseteq> set (jvalue_items v) \<union> set (json_items j)"
  using set_update_subset [of s v j] by (auto simp add: json_items_def)

lemma json_items_lookup:
  "map_of j s = Some v \<Longrightarrow> set (jvalue_items v) \<subseteq> set (json_items j)"
  by (induction j) (auto simp add: json_items_def split: if_splits)

lemma dict_items_update:
  "set (concat (map snd (AList.update k xs d))) \<subseteq> set xs \<union> set (concat (map snd d))"
  using set_update_subset [of k xs d] by auto

lemma dict_items_lookup:
  "map_of d k = Some ys \<Longrightarrow> set ys \<subseteq> set (concat (map snd d))"
  by (induction d) (auto split: if_splits)

lemma extend_list_items:
  assumes "extend_list j s xs = Inr j'"
  shows "set (json_items j') \<subseteq> set (json_items j) \<union> set xs"
proof -
  from assms obtain ys where ys: "map_of j s = Some (JList ys)"
    and j': "j' = AList.update s (JList (ys @ xs)) j"
    by (auto simp add: extend_list_def split: option.splits jvalue.splits)
  from json_items_lookup [OF ys] have "set ys \<subseteq> set (json_items j)"
    by (simp add: jvalue_items_def)
  with json_items_update [of s "JList (ys @ xs)" j] j' show ?thesis
    by (auto simp add: jvalue_items_def)
qed

lemma extend_sub_items:
  assumes "extend_sub j s k xs = Inr j'"
  shows "set (json_items j') \<subseteq> set (json_items j) \<union> set xs"
proof -
  from assms obtain d ys where d: "map_of j s = Some (JDict d)" and ys: "map_of d k = Some ys"
    and j': "j' = AList.update s (JDict (AList.update k (ys @ xs) d)) j"
    by (auto simp add: extend_sub_def split: option.splits jvalue.splits)
  from json_items_lookup [OF d] have a: "set (concat (map snd d)) \<subseteq> set (json_items j)"
    by (simp add: jvalue_items_def)
  from dict_items_lookup [OF ys] have b: "set ys \<subseteq> set (concat (map snd d))" .
  have "set (concat (map snd (AList.update k (ys @ xs) d)))
          \<subseteq> set (ys @ xs) \<union> set (concat (map snd d))"
    by (rule dict_items_update)
  with a b have "set (concat (map snd (AList.update k (ys @ xs) d)))
          \<subseteq> set (json_items j) \<union> set xs"
    unfolding set_append by blast
  then have "set (jvalue_items (JDict (AList.update k (ys @ xs) d)))
          \<subseteq> set (json_items j) \<union> set xs"
    by (simp add: jvalue_items_def)
  with json_items_update [of s "JDict (AList.update k (ys @ xs) d)" j] j' show ?thesis
    by blast
qed

lemma extend_all_items:
  "extend_all j s d = Inr j' \<Longrightarrow>
     set (json_items j') \<subseteq> set (json_items j) \<union> set (concat (map snd d))"
proof (induction d arbitrary: j)
  case Nil
  then show ?case by simp
next
  case (Cons p d)
  obtain k xs where p: "p = (k, xs)" by (cases p)
  with Cons.prems obtain j1 where j1: "extend_sub j s k xs = Inr j1"
    and rest: "extend_all j1 s d = Inr j'"
    by (auto split: sum.splits)
  from extend_sub_items [OF j1] Cons.IH [OF rest] p show ?case by auto
qed

lemma merge_one_items:
  assumes "merge_one L dv j s f = Inr j'" and "list_all item_ok (json_items j)"
  shows "list_all item_ok (json_items j')"
proof (cases "str_strip (f s) \<noteq> []")
  case False
  with assms show ?thesis by (simp add: merge_one_def)
next
  case True
  note nonempty = True
  show ?thesis
  proof (cases "s = HIGHLIGHTS \<or> s = PRODUCTS")
    case True
    with assms(1) nonempty have "extend_list j s (parse_simple_section (f s) s) = Inr j'"
      by (auto simp add: merge_one_def parse_section_items_def)
    from extend_list_items [OF this] assms(2) parse_simple_section_ok [of "f s" s]
    show ?thesis by (auto simp add: list_all_iff)
  next
    case False
    then have cat: "s = BUSINESS \<or> s = TECHNOLOGY \<or> s = RESEARCH" by (cases s) auto
    with assms(1) nonempty False obtain d where
      d: "parse_categorized_section L dv (f s) s = Inr d" and j': "extend_all j s d = Inr j'"
      by (auto simp add: merge_one_def parse_section_items_def split: sum.splits)
    from extend_all_items [OF j'] assms(2) parse_categorized_section_items [OF d]
    show ?thesis by (auto simp add: list_all_iff)
  qed
qed

lemma merge_files_items:
  "merge_files L dv j s fs = Inr j' \<Longrightarrow> list_all item_ok (json_items j) \<Longrightarrow>
     list_all item_ok (json_items j')"
proof (induction fs arbitrary: j)
  case Nil
  then show ?case by simp
next
  case (Cons f fs)
  from Cons.prems(1) obtain j1 where j1: "merge_one L dv j s f = Inr j1"
    and rest: "merge_files L dv j1 s fs = Inr j'"
    by (auto split: sum.splits)
  from Cons.IH [OF rest merge_one_items [OF j1 Cons.prems(2)]] show ?case .
qed

lemma merge_sections_items:
  "merge_sections L dv j ss fs = Inr j' \<Longrightarrow> list_all item_ok (json_items j) \<Longrightarrow>
     list_all item_ok (json_items j')"
proof (induction ss arbitrary: j)
  case Nil
  then show ?case by simp
next
  case (Cons s ss)
  from Cons.prems(1) obtain j1 where j1: "merge_files L dv j s fs = Inr j1"
    and rest: "merge_sections L dv j1 ss fs = Inr j'"
    by (auto split: sum.splits)
  from Cons.IH [OF rest merge_files_items [OF j1 Cons.prems(2)]] show ?case .
qed

lemma link_at_text: "link_at s = Some (tx, url, rest) \<Longrightarrow> tx \<noteq> []"
  by (auto simp add: link_at_def Let_def split: list.splits if_splits)

lemma strip_links_empty: "strip_links s = [] \<longleftrightarrow> s = []"
proof (induction s rule: strip_links.induct)
  case 1
  show ?case by simp
next
  case (2 c cs)
  show ?case
    by (auto dest: link_at_text split: option.splits)
qed

lemma clean_item_dropped:
  "clean_item raw = None \<longleftrightarrow>
     strip_links (str_strip (description raw)) = [] \<and> strip_links (title_text raw) = []"
  by (auto simp add: clean_item_def title_text_def strip_links_empty Let_def
      split: option.splits)

section \<open>Properties of the merged output\<close>

lemmas merge_defs =
  merge_files_to_json_def merge_one_def parse_section_items_def extend_list_def
  extend_sub_def json_data_init_def target_sections_def parse_markdown_file_def
  split_sections_def split_step_def save_section_def section_of_name_def section_key_def

text \<open>
  Scenario A, in a folder \<open>7.6-7.12\<close> in the year 2025: the two files are read in the
  order of their days, and HIGHLIGHTS gets the item of each of them.
\<close>

lemma scenario_a_md:
  "filter (\<lambda>file. endswith file (u ''.md'')) [u ''7-6.md'', u ''7-7.md'']
     = [u ''7-6.md'', u ''7-7.md'']"
  by (simp add: text_defs)

lemma scenario_a_sorted:
  "sort_files_by_date ascii_digit 2025 [u ''7-6.md'', u ''7-7.md''] (u ''7.6-7.12'')
     = Inr [u ''7-6.md'', u ''7-7.md'']"
  by (simp add: date_defs)

lemma scenario_a_output:
  "merge_files_to_json ascii_lower ascii_digit 2025 (u ''7.6-7.12'')
     [u ''7-6.md'', u ''7-7.md''] scenario_a
   = Inr (Some
       [(HIGHLIGHTS,
           JList [\<lparr> title = None, description = u ''Model X launched'',
                     reference_link = None \<rparr>,
                  \<lparr> title = None, description = u ''Model X launched'',
                     reference_link = None \<rparr>]),
        (BUSINESS, JDict [(u ''Funding & Investment'', []), (u ''Company Updates'', []),
                          (u ''Regulatory Developments'', []), (u ''Market Trends'', [])]),
        (PRODUCTS, JList []),
        (TECHNOLOGY, JDict [(u ''Open Source Projects'', []), (u ''Models & Datasets'', []),
                            (u ''Developer Tools & Demos'', [])]),
        (RESEARCH, JDict [(u ''Paper of the Week'', []), (u ''Notable Research'', [])])])"
proof -
  have "merge_sections ascii_lower ascii_digit json_data_init target_sections
          (map (\<lambda>file. parse_markdown_file (scenario_a file)) [u ''7-6.md'', u ''7-7.md''])
        = Inr
       [(HIGHLIGHTS,
           JList [\<lparr> title = None, description = u ''Model X launched'',
                     reference_link = None \<rparr>,
                  \<lparr> title = None, description = u ''Model X launched'',
                     reference_link = None \<rparr>]),
        (BUSINESS, JDict [(u ''Funding & Investment'', []), (u ''Company Updates'', []),
                          (u ''Regulatory Developments'', []), (u ''Market Trends'', [])]),
        (PRODUCTS, JList []),
        (TECHNOLOGY, JDict [(u ''Open Source Projects'', []), (u ''Models & Datasets'', []),
                            (u ''Developer Tools & Demos'', [])]),
        (RESEARCH, JDict [(u ''Paper of the Week'', []), (u ''Notable Research'', [])])]"
    by (simp add: merge_defs scenario_a_def simple_defs item_defs text_defs)
  then show ?thesis
    unfolding merge_files_to_json_def scenario_a_md scenario_a_sorted Let_def by simp
qed

text \<open>
  C8. Whenever the folder has a file \<open>.md\<close> and the files can be ordered, the merge
  returns an output structure, whatever the documents contain, and this structure has the
  five section keys, in their order, a list under HIGHLIGHTS and PRODUCTS, and under
  BUSINESS, TECHNOLOGY and RESEARCH a dictionary with exactly the fixed subcategory keys,
  each with a list of items. (Without a file \<open>.md\<close> nothing is written, and an error of
  the file order ends the run before any output.)
\<close>

theorem output_has_all_keys:
  assumes "filter (\<lambda>file. endswith file (u ''.md'')) listing \<noteq> []"
    and "sort_files_by_date dv now (filter (\<lambda>file. endswith file (u ''.md'')) listing)
           folder_path = Inr ordered"
  shows "\<exists>out. merge_files_to_json L dv now folder_path listing contents = Inr (Some out)
           \<and> json_schema out = fixed_schema"
proof -
  from merge_sections_ok [OF json_data_init_schema] obtain out where
    "merge_sections L dv json_data_init target_sections
       (map (\<lambda>file. parse_markdown_file (contents file)) ordered) = Inr out"
    "json_schema out = fixed_schema"
    by blast
  with assms show ?thesis
    by (simp add: merge_files_to_json_def)
qed

theorem output_has_all_keys_witness:
  "\<exists>out. merge_files_to_json ascii_lower ascii_digit 2025 (u ''7.6-7.12'')
            [u ''7-6.md'', u ''7-7.md''] scenario_a = Inr (Some out)
         \<and> json_schema out = fixed_schema"
proof -
  have md: "filter (\<lambda>file. endswith file (u ''.md'')) [u ''7-6.md'', u ''7-7.md''] \<noteq> []"
    unfolding scenario_a_md by simp
  have ord: "sort_files_by_date ascii_digit 2025
               (filter (\<lambda>file. endswith file (u ''.md'')) [u ''7-6.md'', u ''7-7.md''])
               (u ''7.6-7.12'') = Inr [u ''7-6.md'', u ''7-7.md'']"
    unfolding scenario_a_md by (rule scenario_a_sorted)
  show ?thesis
    by (rule output_has_all_keys [OF md ord])
qed

text \<open>
  C1. Every item of the output structure, in every section and every subcategory, has a
  description that is not empty, and no item has an empty title. A raw item is left out
  by \<open>clean_items\<close> exactly when its trimmed description and its title are both empty
  after the link markup is stripped.
\<close>

theorem output_items_have_description:
  assumes "merge_files_to_json L dv now folder_path listing contents = Inr (Some out)"
  shows "list_all item_ok (json_items out)
       \<and> (clean_item raw = None \<longleftrightarrow>
            strip_links (str_strip (description raw)) = []
            \<and> strip_links (title_text raw) = [])"
proof -
  from assms obtain fs where
    "merge_sections L dv json_data_init target_sections fs = Inr out"
    by (auto simp add: merge_files_to_json_def Let_def split: if_splits sum.splits)
  moreover have "list_all item_ok (json_items json_data_init)"
    by (simp add: json_data_init_def json_items_def jvalue_items_def)
  ultimately have "list_all item_ok (json_items out)"
    by (rule merge_sections_items)
  then show ?thesis
    by (simp add: clean_item_dropped)
qed

theorem output_items_have_description_witness:
  "list_all item_ok
     (json_items
       [(HIGHLIGHTS,
           JList [\<lparr> title = None, description = u ''Model X launched'',
                     reference_link = None \<rparr>,
                  \<lparr> title = None, description = u ''Model X launched'',
                     reference_link = None \<rparr>]),
        (BUSINESS, JDict [(u ''Funding & Investment'', []), (u ''Company Updates'', []),
                          (u ''Regulatory Developments'', []), (u ''Market Trends'', [])]),
        (PRODUCTS, JList []),
        (TECHNOLOGY, JDict [(u ''Open Source Projects'', []), (u ''Models & Datasets'', []),
                            (u ''Developer Tools & Demos'', [])]),
        (RESEARCH, JDict [(u ''Paper of the Week'', []), (u ''Notable Research'', [])])])
   \<and> (clean_item \<lparr> title = Some [], description = u '' '', reference_link = None \<rparr> = None
        \<longleftrightarrow> strip_links (str_strip
                (description \<lparr> title = Some [], description = u '' '',
                               reference_link = None \<rparr>)) = []
            \<and> strip_links (title_text \<lparr> title = Some [], description = u '' '',
                                        reference_link = None \<rparr>) = [])"
  by (rule output_items_have_description [OF scenario_a_output])

section \<open>The output as a function of the documents\<close>

lemma file_dates_names:
  "file_dates dv now sd ed y fs = Inr fds \<Longrightarrow> map snd fds = fs"
proof (induction fs arbitrary: fds)
  case Nil
  then show ?case by simp
next
  case (Cons f fs)
  from Cons.prems obtain d ds where "file_dates dv now sd ed y fs = Inr ds"
    and "fds = (d, f) # ds"
    by (auto split: sum.splits)
  with Cons.IH [of ds] show ?case by simp
qed

lemma sort_files_by_date_set:
  assumes "sort_files_by_date dv now fs p = Inr ordered"
  shows "set ordered = set fs"
proof -
  from assms obtain sd ed y fds where "file_dates dv now sd ed y fs = Inr fds"
    and o: "ordered = map snd (sort_key fst fds)"
    by (auto simp add: sort_files_by_date_def split: sum.splits)
  from file_dates_names [OF this(1)] have "set (map snd fds) = set fs" by simp
  with o show ?thesis by simp
qed

lemma merge_files_to_json_cong:
  assumes "\<forall>file \<in> set listing. endswith file (u ''.md'') \<longrightarrow> contents' file = contents file"
  shows "merge_files_to_json L dv now folder_path listing contents'
       = merge_files_to_json L dv now folder_path listing contents"
proof (cases "sort_files_by_date dv now
                (filter (\<lambda>file. endswith file (u ''.md'')) listing) folder_path")
  case (Inl e)
  then show ?thesis by (simp add: merge_files_to_json_def Let_def)
next
  case (Inr ordered)
  from sort_files_by_date_set [OF Inr]
  have "set ordered = set (filter (\<lambda>file. endswith file (u ''.md'')) listing)" .
  with assms have "\<forall>file \<in> set ordered. contents' file = contents file" by auto
  then have eq: "map (\<lambda>file. parse_markdown_file (contents' file)) ordered
      = map (\<lambda>file. parse_markdown_file (contents file)) ordered"
    by simp
  show ?thesis
    by (simp only: merge_files_to_json_def Let_def Inr sum.case eq)
qed

lemma extend_list_frame:
  "extend_list j s xs = Inr j' \<Longrightarrow> s0 \<noteq> s \<Longrightarrow> map_of j' s0 = map_of j s0"
  by (auto simp add: extend_list_def update_conv' split: option.splits jvalue.splits)

lemma extend_sub_frame:
  "extend_sub j s k xs = Inr j' \<Longrightarrow> s0 \<noteq> s \<Longrightarrow> map_of j' s0 = map_of j s0"
  by (auto simp add: extend_sub_def update_conv' split: option.splits jvalue.splits)

lemma extend_all_frame:
  "extend_all j s d = Inr j' \<Longrightarrow> s0 \<noteq> s \<Longrightarrow> map_of j' s0 = map_of j s0"
proof (induction d arbitrary: j)
  case Nil
  then show ?case by simp
next
  case (Cons p d)
  obtain k xs where p: "p = (k, xs)" by (cases p)
  with Cons.prems obtain j1 where j1: "extend_sub j s k xs = Inr j1"
    and rest: "extend_all j1 s d = Inr j'"
    by (auto split: sum.splits)
  from Cons.IH [OF rest Cons.prems(2)] extend_sub_frame [OF j1 Cons.prems(2)]
  show ?case by simp
qed

lemma merge_one_frame:
  assumes "merge_one L dv j s f = Inr j'" and "s0 \<noteq> s"
  shows "map_of j' s0 = map_of j s0"
  using assms
  by (auto simp add: merge_one_def dest: extend_list_frame extend_all_frame
      split: if_splits sum.splits jvalue.splits)

lemma extend_sub_list:
  assumes "extend_sub j s k' xs = Inr j'"
  shows "subcategory_list j' s k
       = (if k = k' then subcategory_list j s k @ xs else subcategory_list j s k)"
  using assms
  by (auto simp add: extend_sub_def subcategory_list_def update_conv'
      split: option.splits jvalue.splits)

lemma extend_all_list:
  assumes "extend_all j s d = Inr j'" and "distinct (map fst d)"
  shows "subcategory_list j' s k
       = subcategory_list j s k @ (case map_of d k of None \<Rightarrow> [] | Some xs \<Rightarrow> xs)"
  using assms
proof (induction d arbitrary: j)
  case Nil
  then show ?case by simp
next
  case (Cons p d)
  obtain k' xs where p: "p = (k', xs)" by (cases p)
  with Cons.prems obtain j1 where j1: "extend_sub j s k' xs = Inr j1"
    and rest: "extend_all j1 s d = Inr j'"
    by (auto split: sum.splits)
  from Cons.prems(2) p have d: "distinct (map fst d)" and k': "k' \<notin> fst ` set d"
    by auto
  from k' have none: "map_of d k' = None" by (simp add: map_of_eq_None_iff)
  from Cons.IH [OF rest d] extend_sub_list [OF j1, of k] p none
  show ?case by auto
qed

lemma table_keys_distinct:
  assumes "map_of subcategory_mapping s = Some table"
  shows "distinct (map fst table)"
  using table_keys [OF assms] by (auto simp add: u_def)

lemma not_simple_table:
  "\<not> is_simple s \<Longrightarrow> \<exists>table. map_of subcategory_mapping s = Some table"
  by (cases s) (auto simp add: is_simple_def subcategory_mapping_def)

lemma simple_no_subcategories:
  assumes "json_schema j = fixed_schema" and "is_simple s"
  shows "subcategory_list j s k = []"
proof -
  from assms(2) have "s = HIGHLIGHTS \<or> s = PRODUCTS" by (simp add: is_simple_def)
  from schema_list [OF assms(1) this] show ?thesis
    by (auto simp add: subcategory_list_def)
qed

lemma categorized_no_list:
  assumes "json_schema j = fixed_schema" and "\<not> is_simple s"
  shows "section_list j s = []"
proof -
  from not_simple_table [OF assms(2)] obtain table where
    "map_of subcategory_mapping s = Some table" by blast
  from schema_dict [OF assms(1) this] show ?thesis
    by (auto simp add: section_list_def)
qed

lemma merge_one_section_list:
  assumes "merge_one L dv j s f = Inr j'" and "is_simple s"
  shows "section_list j' s = section_list j s @ document_list s f"
proof (cases "str_strip (f s) \<noteq> []")
  case False
  with assms show ?thesis by (simp add: merge_one_def document_list_def)
next
  case True
  from assms(2) have s: "s = HIGHLIGHTS \<or> s = PRODUCTS" by (simp add: is_simple_def)
  with assms(1) True have "extend_list j s (parse_simple_section (f s) s) = Inr j'"
    by (auto simp add: merge_one_def parse_section_items_def)
  with True show ?thesis
    by (auto simp add: extend_list_def section_list_def document_list_def update_conv'
        split: option.splits jvalue.splits)
qed

lemma merge_one_subcategory_list:
  assumes "merge_one L dv j s f = Inr j'" and "\<not> is_simple s"
  shows "subcategory_list j' s k = subcategory_list j s k @ document_subcategory L dv s k f"
proof (cases "str_strip (f s) \<noteq> []")
  case False
  with assms show ?thesis by (simp add: merge_one_def document_subcategory_def)
next
  case True
  from assms(2) have cat: "s = BUSINESS \<or> s = TECHNOLOGY \<or> s = RESEARCH"
    by (cases s) (auto simp add: is_simple_def)
  from not_simple_table [OF assms(2)] obtain table where
    t: "map_of subcategory_mapping s = Some table" by blast
  from parse_categorized_section_ok [OF t, of L dv "f s"] obtain d where
    d: "parse_categorized_section L dv (f s) s = Inr d" "map fst d = map fst table"
    by blast
  from d(2) table_keys_distinct [OF t] have dist: "distinct (map fst d)" by simp
  from assms(1) True cat d(1) have "extend_all j s d = Inr j'"
    by (auto simp add: merge_one_def parse_section_items_def)
  from extend_all_list [OF this dist, of k] True d(1) show ?thesis
    by (simp add: document_subcategory_def subcategory_items_def)
qed

lemma merge_files_lists:
  assumes "merge_files L dv j s fs = Inr j'"
  shows "(is_simple s \<longrightarrow>
            section_list j' s = section_list j s @ concat (map (document_list s) fs))
       \<and> (\<not> is_simple s \<longrightarrow>
            subcategory_list j' s k
              = subcategory_list j s k @ concat (map (document_subcategory L dv s k) fs))
       \<and> (\<forall>s0. s0 \<noteq> s \<longrightarrow> map_of j' s0 = map_of j s0)"
  using assms
proof (induction fs arbitrary: j)
  case Nil
  then show ?case by simp
next
  case (Cons f fs)
  from Cons.prems obtain j1 where j1: "merge_one L dv j s f = Inr j1"
    and rest: "merge_files L dv j1 s fs = Inr j'"
    by (auto split: sum.splits)
  from Cons.IH [OF rest] merge_one_section_list [OF j1] merge_one_subcategory_list [OF j1, of k]
    merge_one_frame [OF j1]
  show ?case by auto
qed

lemma lists_of_lookup:
  "map_of j' s = map_of j s \<Longrightarrow>
     section_list j' s = section_list j s \<and> subcategory_list j' s k = subcategory_list j s k"
  by (simp add: section_list_def subcategory_list_def)

lemma merge_sections_lists:
  assumes "merge_sections L dv j ss fs = Inr j'" and "distinct ss"
  shows "(is_simple s0 \<longrightarrow>
            section_list j' s0
              = section_list j s0
                @ (if s0 \<in> set ss then concat (map (document_list s0) fs) else []))
       \<and> (\<not> is_simple s0 \<longrightarrow>
            subcategory_list j' s0 k
              = subcategory_list j s0 k
                @ (if s0 \<in> set ss then concat (map (document_subcategory L dv s0 k) fs)
                   else []))"
  using assms
proof (induction ss arbitrary: j)
  case Nil
  then show ?case by simp
next
  case (Cons s ss)
  from Cons.prems(1) obtain j1 where j1: "merge_files L dv j s fs = Inr j1"
    and rest: "merge_sections L dv j1 ss fs = Inr j'"
    by (auto split: sum.splits)
  from Cons.prems(2) have d: "distinct ss" and s: "s \<notin> set ss" by simp_all
  note IH = Cons.IH [OF rest d]
  show ?case
  proof (cases "s0 = s")
    case True
    with IH s merge_files_lists [OF j1, of k] show ?thesis by simp
  next
    case False
    with merge_files_lists [OF j1, of k] have "map_of j1 s0 = map_of j s0" by simp
    from lists_of_lookup [OF this, of k] IH False show ?thesis by simp
  qed
qed

lemma merge_output_lists:
  assumes "merge_sections L dv json_data_init target_sections fs = Inr out"
  shows "(is_simple s \<longrightarrow> section_list out s = concat (map (document_list s) fs))
       \<and> (\<not> is_simple s \<longrightarrow>
            subcategory_list out s k = concat (map (document_subcategory L dv s k) fs))"
proof -
  have d: "distinct target_sections" by (simp add: target_sections_def)
  have all: "s \<in> set target_sections" by (cases s) (simp_all add: target_sections_def)
  have "section_list json_data_init s = []"
    by (cases s) (simp_all add: section_list_def json_data_init_def)
  moreover have "\<not> is_simple s \<longrightarrow> subcategory_list json_data_init s k = []"
    by (cases s) (simp_all add: subcategory_list_def json_data_init_def is_simple_def)
  ultimately show ?thesis
    using merge_sections_lists [OF assms d, of s k] all by simp
qed

text \<open>
  C9, as the code has it. The output is a function of the year of the clock, the folder
  name, the listing and the texts of the listed files \<open>.md\<close>: two runs that agree on
  these return the same result, whatever else differs. Nothing is deduplicated: when the
  run returns an output, the list of every simple section and of every subcategory is
  the concatenation, in the order of the files, of the items parsed from each document,
  so an item repeated in several documents is there once for each of them.
\<close>

theorem merge_depends_on_documents_only:
  assumes "\<forall>file \<in> set listing. endswith file (u ''.md'') \<longrightarrow> contents' file = contents file"
  shows "merge_files_to_json L dv now folder_path listing contents'
           = merge_files_to_json L dv now folder_path listing contents
       \<and> (merge_files_to_json L dv now folder_path listing contents = Inr (Some out) \<longrightarrow>
          sort_files_by_date dv now (filter (\<lambda>file. endswith file (u ''.md'')) listing)
            folder_path = Inr ordered \<longrightarrow>
            (is_simple s \<longrightarrow>
               section_list out s
                 = concat (map (\<lambda>file. document_list s (parse_markdown_file (contents file)))
                     ordered))
          \<and> (\<not> is_simple s \<longrightarrow>
               subcategory_list out s k
                 = concat (map (\<lambda>file. document_subcategory L dv s k
                                  (parse_markdown_file (contents file))) ordered)))"
proof (intro conjI impI)
  show "merge_files_to_json L dv now folder_path listing contents'
           = merge_files_to_json L dv now folder_path listing contents"
    using assms by (rule merge_files_to_json_cong)
next
  assume out: "merge_files_to_json L dv now folder_path listing contents = Inr (Some out)"
    and ord: "sort_files_by_date dv now (filter (\<lambda>file. endswith file (u ''.md'')) listing)
            folder_path = Inr ordered"
  from out ord have m: "merge_sections L dv json_data_init target_sections
      (map (\<lambda>file. parse_markdown_file (contents file)) ordered) = Inr out"
    by (auto simp add: merge_files_to_json_def Let_def split: if_splits sum.splits)
  {
    assume "is_simple s"
    with merge_output_lists [OF m, of s k]
    show "section_list out s
            = concat (map (\<lambda>file. document_list s (parse_markdown_file (contents file)))
                ordered)"
      by (simp add: comp_def)
  next
    assume "\<not> is_simple s"
    with merge_output_lists [OF m, of s k]
    show "subcategory_list out s k
            = concat (map (\<lambda>file. document_subcategory L dv s k
                             (parse_markdown_file (contents file))) ordered)"
      by (simp add: comp_def)
  }
qed

lemma leap_day_sorted_2028:
  "sort_files_by_date ascii_digit 2028 [u ''2-29.md'', u ''3-1.md''] (u ''2.28-3.1'')
     = Inr [u ''2-29.md'', u ''3-1.md'']"
  by (simp add: date_defs)

lemma leap_day_sorted_2029:
  "sort_files_by_date ascii_digit 2029 [u ''2-29.md'', u ''3-1.md''] (u ''2.28-3.1'')
     = Inr [u ''3-1.md'', u ''2-29.md'']"
  by (simp add: date_defs)

lemma leap_day_md:
  "filter (\<lambda>file. endswith file (u ''.md'')) [u ''2-29.md'', u ''3-1.md'']
     = [u ''2-29.md'', u ''3-1.md'']"
  by (simp add: text_defs)



lemma leap_day_output_2028:
  "merge_files_to_json ascii_lower ascii_digit 2028 (u ''2.28-3.1'')
     [u ''2-29.md'', u ''3-1.md''] leap_day_folder
   = Inr (Some
       [(HIGHLIGHTS,
           JList [\<lparr> title = None, description = u ''A'', reference_link = None \<rparr>,
                  \<lparr> title = None, description = u ''B'', reference_link = None \<rparr>]),
        (BUSINESS, JDict [(u ''Funding & Investment'', []), (u ''Company Updates'', []),
                          (u ''Regulatory Developments'', []), (u ''Market Trends'', [])]),
        (PRODUCTS, JList []),
        (TECHNOLOGY, JDict [(u ''Open Source Projects'', []), (u ''Models & Datasets'', []),
                            (u ''Developer Tools & Demos'', [])]),
        (RESEARCH, JDict [(u ''Paper of the Week'', []), (u ''Notable Research'', [])])])"
proof -
  have "merge_sections ascii_lower ascii_digit json_data_init target_sections
          (map (\<lambda>file. parse_markdown_file (leap_day_folder file)) [u ''2-29.md'', u ''3-1.md''])
        = Inr
       [(HIGHLIGHTS,
           JList [\<lparr> title = None, description = u ''A'', reference_link = None \<rparr>,
                  \<lparr> title = None, description = u ''B'', reference_link = None \<rparr>]),
        (BUSINESS, JDict [(u ''Funding & Investment'', []), (u ''Company Updates'', []),
                          (u ''Regulatory Developments'', []), (u ''Market Trends'', [])]),
        (PRODUCTS, JList []),
        (TECHNOLOGY, JDict [(u ''Open Source Projects'', []), (u ''Models & Datasets'', []),
                            (u ''Developer Tools & Demos'', [])]),
        (RESEARCH, JDict [(u ''Paper of the Week'', []), (u ''Notable Research'', [])])]"
    by (simp add: merge_defs leap_day_folder_def simple_defs item_defs text_defs)
  then show ?thesis
    unfolding merge_files_to_json_def leap_day_md leap_day_sorted_2028 Let_def by simp
qed

lemma leap_day_output_2029:
  "merge_files_to_json ascii_lower ascii_digit 2029 (u ''2.28-3.1'')
     [u ''2-29.md'', u ''3-1.md''] leap_day_folder
   = Inr (Some
       [(HIGHLIGHTS,
           JList [\<lparr> title = None, description = u ''B'', reference_link = None \<rparr>,
                  \<lparr> title = None, description = u ''A'', reference_link = None \<rparr>]),
        (BUSINESS, JDict [(u ''Funding & Investment'', []), (u ''Company Updates'', []),
                          (u ''Regulatory Developments'', []), (u ''Market Trends'', [])]),
        (PRODUCTS, JList []),
        (TECHNOLOGY, JDict [(u ''Open Source Projects'', []), (u ''Models & Datasets'', []),
                            (u ''Developer Tools & Demos'', [])]),
        (RESEARCH, JDict [(u ''Paper of the Week'', []), (u ''Notable Research'', [])])])"
proof -
  have "merge_sections ascii_lower ascii_digit json_data_init target_sections
          (map (\<lambda>file. parse_markdown_file (leap_day_folder file)) [u ''3-1.md'', u ''2-29.md''])
        = Inr
       [(HIGHLIGHTS,
           JList [\<lparr> title = None, description = u ''B'', reference_link = None \<rparr>,
                  \<lparr> title = None, description = u ''A'', reference_link = None \<rparr>]),
        (BUSINESS, JDict [(u ''Funding & Investment'', []), (u ''Company Updates'', []),
                          (u ''Regulatory Developments'', []), (u ''Market Trends'', [])]),
        (PRODUCTS, JList []),
        (TECHNOLOGY, JDict [(u ''Open Source Projects'', []), (u ''Models & Datasets'', []),
                            (u ''Developer Tools & Demos'', [])]),
        (RESEARCH, JDict [(u ''Paper of the Week'', []), (u ''Notable Research'', [])])]"
    by (simp add: merge_defs leap_day_folder_def simple_defs item_defs text_defs)
  then show ?thesis
    unfolding merge_files_to_json_def leap_day_md leap_day_sorted_2029 Let_def by simp
qed

text \<open>
  C9, as the claim states it, fails when the year of the clock changes between two runs:
  the same folder, with the same two documents, gives the highlights in the order A, B in
  the leap year 2028 and in the order B, A in 2029, where \<open>2-29.md\<close> is no date and
  goes to the end.
\<close>

theorem output_depends_on_year:
  "merge_files_to_json ascii_lower ascii_digit 2028 (u ''2.28-3.1'')
     [u ''2-29.md'', u ''3-1.md''] leap_day_folder
   \<noteq> merge_files_to_json ascii_lower ascii_digit 2029 (u ''2.28-3.1'')
       [u ''2-29.md'', u ''3-1.md''] leap_day_folder"
  unfolding leap_day_output_2028 leap_day_output_2029 by (simp add: u_def)

theorem merge_depends_on_documents_only_witness:
  "merge_files_to_json ascii_lower ascii_digit 2025 (u ''7.6-7.12'')
     [u ''7-6.md'', u ''7-7.md''] scenario_a_changed
   = merge_files_to_json ascii_lower ascii_digit 2025 (u ''7.6-7.12'')
       [u ''7-6.md'', u ''7-7.md''] scenario_a
   \<and> section_list
       [(HIGHLIGHTS,
           JList [\<lparr> title = None, description = u ''Model X launched'',
                     reference_link = None \<rparr>,
                  \<lparr> title = None, description = u ''Model X launched'',
                     reference_link = None \<rparr>]),
        (BUSINESS, JDict [(u ''Funding & Investment'', []), (u ''Company Updates'', []),
                          (u ''Regulatory Developments'', []), (u ''Market Trends'', [])]),
        (PRODUCTS, JList []),
        (TECHNOLOGY, JDict [(u ''Open Source Projects'', []), (u ''Models & Datasets'', []),
                            (u ''Developer Tools & Demos'', [])]),
        (RESEARCH, JDict [(u ''Paper of the Week'', []), (u ''Notable Research'', [])])]
       HIGHLIGHTS
     = concat (map (\<lambda>file. document_list HIGHLIGHTS (parse_markdown_file (scenario_a file)))
         [u ''7-6.md'', u ''7-7.md''])"
proof -
  have agree: "\<forall>file \<in> set [u ''7-6.md'', u ''7-7.md''].
      endswith file (u ''.md'') \<longrightarrow> scenario_a_changed file = scenario_a file"
    by (simp add: scenario_a_changed_def u_def)
  have ord: "sort_files_by_date ascii_digit 2025
               (filter (\<lambda>file. endswith file (u ''.md'')) [u ''7-6.md'', u ''7-7.md''])
               (u ''7.6-7.12'') = Inr [u ''7-6.md'', u ''7-7.md'']"
    unfolding scenario_a_md by (rule scenario_a_sorted)
  have simple: "is_simple HIGHLIGHTS" by (simp add: is_simple_def)
  note th = merge_depends_on_documents_only [OF agree, where s = HIGHLIGHTS]
  from th [THEN conjunct2, THEN mp, OF scenario_a_output, THEN mp, OF ord, THEN conjunct1,
      THEN mp, OF simple] th [THEN conjunct1]
  show ?thesis by (intro conjI)
qed

section \<open>Bullet lines\<close>

lemma bullet_not_bracket: "is_bullet line \<Longrightarrow> \<not> startswith line (u ''['')"
  by (cases line) (auto simp add: is_bullet_def startswith_def bullet_def u_def)

lemma research_rules_appends:
  assumes "is_bullet line" and "current_item st = Some it" and "\<not> research_header L line"
  shows "research_rules L dv st line rest
       = Some (Inr (st \<lparr> current_item := Some (append_description it line) \<rparr>, False))"
  using assms bullet_not_bracket [OF assms(1)]
  by (simp add: research_rules_def research_header_def)

lemma cat_step_bullet_rule:
  assumes "s = RESEARCH \<longrightarrow> research_rules L dv st line rest = None"
    and "header_rules L s table st line rest = None"
    and "\<not> technology_filter L s line"
    and "title_rule L s table st line rest = None"
    and "item_header line = None"
    and "\<not> business_names s line"
    and "bullet_rule L s table st line = Some r"
  shows "cat_step L dv s table st line rest = r"
proof -
  from assms(1) have "(if s = RESEARCH then research_rules L dv st line rest else None) = None"
    by simp
  with assms(2-7) show ?thesis
    by (simp add: cat_step_def header_item_rule_def)
qed

lemma bullet_nonempty: "is_bullet line \<Longrightarrow> line \<noteq> []"
  by (auto simp add: is_bullet_def startswith_def u_def)

lemma named_field_is_header:
  assumes "startswith line (u ''**Authors:**'') \<or> startswith line (u ''**Institution:**'')"
  shows "item_header line \<noteq> None"
proof -
  from assms consider x where "line = u ''**Authors:**'' @ x"
    | x where "line = u ''**Institution:**'' @ x"
    unfolding startswith_def by (metis append_take_drop_id)
  then show ?thesis
  proof cases
    case 1
    then show ?thesis by (simp add: item_header_def startswith_def u_def)
  next
    case 2
    then show ?thesis by (simp add: item_header_def startswith_def u_def)
  qed
qed

lemma research_rules_closed:
  assumes "is_bullet line" and "item_header line = None" and "current_item st = None"
    and "\<not> research_header L line"
  shows "research_rules L dv st line rest = None"
  using assms bullet_not_bracket [OF assms(1)] named_field_is_header [of line]
  by (auto simp add: research_rules_def research_header_def)

text \<open>The body of the loop on a bullet line that reaches the bullet rule.\<close>

lemma bullet_step:
  assumes t: "map_of subcategory_mapping s = Some table"
    and ok: "state_ok table st"
    and b: "is_bullet line"
    and h: "header_rules L s table st line rest = None"
    and f: "\<not> technology_filter L s line"
    and ti: "title_rule L s table st line rest = None"
    and ih: "item_header line = None"
    and bn: "\<not> business_names s line"
  shows "(s = BUSINESS \<longrightarrow> current_item st = Some it \<longrightarrow>
            cat_step L dv s table st line rest
              = Inr (st \<lparr> current_item :=
                            Some (capture_link (append_description it (str_strip (drop 1 line)))
                                    (str_strip (drop 1 line))) \<rparr>, False))
       \<and> (s = RESEARCH \<longrightarrow> current_item st = Some it \<longrightarrow> \<not> research_header L line \<longrightarrow>
            cat_step L dv s table st line rest
              = Inr (st \<lparr> current_item := Some (append_description it line) \<rparr>, False))
       \<and> (s = TECHNOLOGY \<or> (s = BUSINESS \<and> current_item st = None)
            \<or> (s = RESEARCH \<and> current_item st = None \<and> \<not> research_header L line) \<longrightarrow>
            (\<exists>r k. save_plain st = Inr r
               \<and> (if is_set (current_subcategory st) then current_subcategory st = Some k
                  else detect_subcategory L (str_strip (drop 1 line)) s table = Inr k)
               \<and> cat_step L dv s table st line rest
                   = Inr (\<lparr> result = r, current_subcategory = Some k,
                            current_item =
                              Some \<lparr> title = None,
                                     description = strip_links (str_strip (drop 1 line)),
                                     reference_link =
                                       extract_link_from_text (str_strip (drop 1 line)) \<rparr> \<rparr>,
                          False)))"
proof (intro conjI impI)
  assume s: "s = BUSINESS" and it: "current_item st = Some it"
  let ?d = "str_strip (drop 1 line)"
  from s it b have "bullet_rule L s table st line
      = Some (Inr (st \<lparr> current_item := Some (capture_link (append_description it ?d) ?d) \<rparr>,
                   False))"
    by (simp add: bullet_rule_def Let_def)
  with s show "cat_step L dv s table st line rest
      = Inr (st \<lparr> current_item := Some (capture_link (append_description it ?d) ?d) \<rparr>, False)"
    by (intro cat_step_bullet_rule h f ti ih bn) simp_all
next
  assume s: "s = RESEARCH" and it: "current_item st = Some it"
    and nh: "\<not> research_header L line"
  from research_rules_appends [OF b it nh] s
  show "cat_step L dv s table st line rest
      = Inr (st \<lparr> current_item := Some (append_description it line) \<rparr>, False)"
    by (simp add: cat_step_def)
next
  assume c: "s = TECHNOLOGY \<or> (s = BUSINESS \<and> current_item st = None)
            \<or> (s = RESEARCH \<and> current_item st = None \<and> \<not> research_header L line)"
  let ?d = "str_strip (drop 1 line)"
  let ?new = "Some \<lparr> title = None, description = strip_links ?d,
                     reference_link = extract_link_from_text ?d \<rparr>"
  from c have first: "s = RESEARCH \<longrightarrow> research_rules L dv st line rest = None"
    by (auto intro: research_rules_closed [OF b ih])
  from c have nb: "\<not> (s = BUSINESS \<and> current_item st \<noteq> None)" by auto
  from c have "s \<noteq> RESEARCH \<or> current_item st = None" by auto
  then have sv: "save_item s st = save_plain st" by (rule save_item_plain)
  obtain r where r: "save_plain st = Inr r"
    using save_plain_ok [OF ok] by blast
  from ok have cur:
    "case current_subcategory st of None \<Rightarrow> True | Some k \<Rightarrow> k \<noteq> [] \<and> k \<in> set (map fst table)"
    by (simp add: state_ok_def)
  obtain k where k: "auto_detect L s table (current_subcategory st) ?d = Inr (Some k)"
    using auto_detect_ok [OF t cur] by blast
  then have kd: "if is_set (current_subcategory st) then current_subcategory st = Some k
                 else detect_subcategory L ?d s table = Inr k"
    by (auto simp add: auto_detect_def split: if_splits sum.splits)
  from b nb sv r k have "bullet_rule L s table st line
      = Some (Inr (\<lparr> result = r, current_subcategory = Some k, current_item = ?new \<rparr>, False))"
    by (auto simp add: bullet_rule_def Let_def)
  then have "cat_step L dv s table st line rest
      = Inr (\<lparr> result = r, current_subcategory = Some k, current_item = ?new \<rparr>, False)"
    by (intro cat_step_bullet_rule first h f ti ih bn)
  with r kd show "\<exists>r k. save_plain st = Inr r
               \<and> (if is_set (current_subcategory st) then current_subcategory st = Some k
                  else detect_subcategory L ?d s table = Inr k)
               \<and> cat_step L dv s table st line rest
                   = Inr (\<lparr> result = r, current_subcategory = Some k, current_item = ?new \<rparr>,
                          False)"
    by blast
qed

text \<open>
  The loop of the parser skips a separator line, which is a line of \<open>*\<close> and spaces
  only (so it starts with \<open>*\<close>), before any rule; on any other line that is not empty
  it runs the body, and goes on with the next line when the body consumed one line.
\<close>

lemma separator_lines_are_skipped:
  "is_delimiter line \<Longrightarrow>
     cat_loop L dv s table st (line # rest) = cat_loop L dv s table st rest"
  by simp

lemma cat_loop_one_line:
  assumes "line \<noteq> []" and "\<not> is_delimiter line"
    and "cat_step L dv s table st line rest = Inr (st', False)"
  shows "cat_loop L dv s table st (line # rest) = cat_loop L dv s table st' rest"
  using assms by simp

text \<open>
  C6, as the code has it, in the loop of \<open>parse_categorized_section\<close>: \<open>st\<close> is the
  state of the parser when it comes to the line, \<open>rest\<close> are the lines after it. The
  line is a bullet line (it starts with the bullet or with \<open>*\<close>) that is not a separator
  line (a line of \<open>*\<close> and spaces only, which the loop skips), and that reaches the
  bullet rule: no subcategory header, no filtered header of TECHNOLOGY, no title over
  dashes, no item header and no name of a subcategory of BUSINESS. Then the parser goes on
  with the lines after it in this state: in BUSINESS with an open item, the stripped line
  extends the description of this item and no item is started; in RESEARCH with an open
  item, the line, with its marker, is appended to the description of this item by the
  content rule of RESEARCH, unless it names a subcategory; in TECHNOLOGY, and in BUSINESS
  and RESEARCH without an open item (in RESEARCH unless the line names a subcategory),
  the open item is saved and an item without a title is started from the stripped line,
  its subcategory being the current one when one is set and the one of the keyword
  classifier otherwise.
\<close>

theorem bullet_lines:
  assumes t: "map_of subcategory_mapping s = Some table"
    and ok: "state_ok table st"
    and b: "is_bullet line"
    and nd: "\<not> is_delimiter line"
    and h: "header_rules L s table st line rest = None"
    and f: "\<not> technology_filter L s line"
    and ti: "title_rule L s table st line rest = None"
    and ih: "item_header line = None"
    and bn: "\<not> business_names s line"
  shows "(s = BUSINESS \<longrightarrow> current_item st = Some it \<longrightarrow>
            cat_loop L dv s table st (line # rest)
              = cat_loop L dv s table
                  (st \<lparr> current_item :=
                          Some (capture_link (append_description it (str_strip (drop 1 line)))
                                  (str_strip (drop 1 line))) \<rparr>) rest)
       \<and> (s = RESEARCH \<longrightarrow> current_item st = Some it \<longrightarrow> \<not> research_header L line \<longrightarrow>
            cat_loop L dv s table st (line # rest)
              = cat_loop L dv s table
                  (st \<lparr> current_item := Some (append_description it line) \<rparr>) rest)
       \<and> (s = TECHNOLOGY \<or> (s = BUSINESS \<and> current_item st = None)
            \<or> (s = RESEARCH \<and> current_item st = None \<and> \<not> research_header L line) \<longrightarrow>
            (\<exists>r k. save_plain st = Inr r
               \<and> (if is_set (current_subcategory st) then current_subcategory st = Some k
                  else detect_subcategory L (str_strip (drop 1 line)) s table = Inr k)
               \<and> cat_loop L dv s table st (line # rest)
                   = cat_loop L dv s table
                       \<lparr> result = r, current_subcategory = Some k,
                          current_item =
                            Some \<lparr> title = None,
                                   description = strip_links (str_strip (drop 1 line)),
                                   reference_link =
                                     extract_link_from_text (str_strip (drop 1 line)) \<rparr> \<rparr>
                       rest))"
proof -
  note step = bullet_step [where it = it and dv = dv, OF t ok b h f ti ih bn]
  note loop = cat_loop_one_line [OF bullet_nonempty [OF b] nd]
  show ?thesis
  proof (intro conjI impI)
    assume "s = BUSINESS" and "current_item st = Some it"
    with step show "cat_loop L dv s table st (line # rest)
        = cat_loop L dv s table
            (st \<lparr> current_item :=
                    Some (capture_link (append_description it (str_strip (drop 1 line)))
                            (str_strip (drop 1 line))) \<rparr>) rest"
      by (intro loop) blast
  next
    assume "s = RESEARCH" and "current_item st = Some it" and "\<not> research_header L line"
    with step show "cat_loop L dv s table st (line # rest)
        = cat_loop L dv s table
            (st \<lparr> current_item := Some (append_description it line) \<rparr>) rest"
      by (intro loop) blast
  next
    let ?d = "str_strip (drop 1 line)"
    let ?new = "Some \<lparr> title = None, description = strip_links ?d,
                       reference_link = extract_link_from_text ?d \<rparr>"
    assume "s = TECHNOLOGY \<or> (s = BUSINESS \<and> current_item st = None)
            \<or> (s = RESEARCH \<and> current_item st = None \<and> \<not> research_header L line)"
    with step obtain r k where r: "save_plain st = Inr r"
      and k: "if is_set (current_subcategory st) then current_subcategory st = Some k
              else detect_subcategory L ?d s table = Inr k"
      and c: "cat_step L dv s table st line rest
          = Inr (\<lparr> result = r, current_subcategory = Some k, current_item = ?new \<rparr>, False)"
      by blast
    from loop [OF c] r k
    show "\<exists>r k. save_plain st = Inr r
               \<and> (if is_set (current_subcategory st) then current_subcategory st = Some k
                  else detect_subcategory L ?d s table = Inr k)
               \<and> cat_loop L dv s table st (line # rest)
                   = cat_loop L dv s table
                       \<lparr> result = r, current_subcategory = Some k, current_item = ?new \<rparr> rest"
      by blast
  qed
qed

lemma table_of_lookup:
  "s = BUSINESS \<or> s = TECHNOLOGY \<or> s = RESEARCH \<Longrightarrow>
     map_of subcategory_mapping s = Some (table_of s)"
  by (auto simp add: table_of_def subcategory_mapping_def)

lemmas state_defs = table_of_def open_state_def state_ok_def all_lists_def

theorem bullet_lines_witness:
  "cat_loop ascii_lower ascii_digit BUSINESS (table_of BUSINESS)
     (open_state BUSINESS (Some (u ''Company Updates''))
        (Some \<lparr> title = Some (u ''T''), description = [], reference_link = None \<rparr>))
     [[bullet] @ u '' more'']
   = Inr (open_state BUSINESS (Some (u ''Company Updates''))
            (Some \<lparr> title = Some (u ''T''), description = u ''more'',
                    reference_link = None \<rparr>))
   \<and> cat_loop ascii_lower ascii_digit RESEARCH (table_of RESEARCH)
       (open_state RESEARCH (Some (u ''Paper of the Week''))
          (Some \<lparr> title = Some (u ''P''), description = [],
                  reference_link = Some (u ''http://a'') \<rparr>))
       [[bullet] @ u '' note'']
     = Inr (open_state RESEARCH (Some (u ''Paper of the Week''))
              (Some \<lparr> title = Some (u ''P''), description = [bullet] @ u '' note'',
                      reference_link = Some (u ''http://a'') \<rparr>))
   \<and> cat_loop ascii_lower ascii_digit TECHNOLOGY (table_of TECHNOLOGY)
       (open_state TECHNOLOGY None None) [u ''* Foo model'']
     = Inr (open_state TECHNOLOGY (Some (u ''Models & Datasets''))
              (Some \<lparr> title = None, description = u ''Foo model'',
                      reference_link = None \<rparr>))"
proof (intro conjI)
  let ?st = "open_state BUSINESS (Some (u ''Company Updates''))
        (Some \<lparr> title = Some (u ''T''), description = [], reference_link = None \<rparr>)"
  let ?line = "[bullet] @ u '' more''"
  have t: "map_of subcategory_mapping BUSINESS = Some (table_of BUSINESS)"
    by (simp add: table_of_lookup)
  have ok: "state_ok (table_of BUSINESS) ?st"
    by (simp add: state_defs subcategory_mapping_def u_def)
  have b: "is_bullet ?line"
    by (simp add: is_bullet_def startswith_def)
  have nd: "\<not> is_delimiter ?line"
    by (simp add: text_defs)
  have h: "header_rules ascii_lower BUSINESS (table_of BUSINESS) ?st ?line [] = None"
    by (simp add: state_defs cat_defs text_defs)
  have f: "\<not> technology_filter ascii_lower BUSINESS ?line"
    by (simp add: technology_filter_def)
  have ti: "title_rule ascii_lower BUSINESS (table_of BUSINESS) ?st ?line [] = None"
    by (simp add: title_rule_def underline_follows_def)
  have ih: "item_header ?line = None"
    by (simp add: item_header_def text_defs)
  have bn: "\<not> business_names BUSINESS ?line"
    by (simp add: business_names_def text_defs)
  have it: "current_item ?st
      = Some \<lparr> title = Some (u ''T''), description = [], reference_link = None \<rparr>"
    by (simp add: open_state_def)
  from bullet_lines [OF t ok b nd h f ti ih bn, THEN conjunct1, THEN mp, OF refl, THEN mp,
      OF it]
  show "cat_loop ascii_lower ascii_digit BUSINESS (table_of BUSINESS) ?st [?line]
      = Inr (open_state BUSINESS (Some (u ''Company Updates''))
            (Some \<lparr> title = Some (u ''T''), description = u ''more'',
                    reference_link = None \<rparr>))"
    by (simp add: open_state_def item_defs text_defs)
next
  let ?st = "open_state RESEARCH (Some (u ''Paper of the Week''))
          (Some \<lparr> title = Some (u ''P''), description = [],
                  reference_link = Some (u ''http://a'') \<rparr>)"
  let ?line = "[bullet] @ u '' note''"
  have t: "map_of subcategory_mapping RESEARCH = Some (table_of RESEARCH)"
    by (simp add: table_of_lookup)
  have ok: "state_ok (table_of RESEARCH) ?st"
    by (simp add: state_defs subcategory_mapping_def u_def)
  have b: "is_bullet ?line"
    by (simp add: is_bullet_def startswith_def)
  have nd: "\<not> is_delimiter ?line"
    by (simp add: text_defs)
  have h: "header_rules ascii_lower RESEARCH (table_of RESEARCH) ?st ?line [] = None"
    by (simp add: state_defs cat_defs text_defs)
  have f: "\<not> technology_filter ascii_lower RESEARCH ?line"
    by (simp add: technology_filter_def)
  have ti: "title_rule ascii_lower RESEARCH (table_of RESEARCH) ?st ?line [] = None"
    by (simp add: title_rule_def underline_follows_def)
  have ih: "item_header ?line = None"
    by (simp add: item_header_def text_defs)
  have bn: "\<not> business_names RESEARCH ?line"
    by (simp add: business_names_def text_defs)
  have it: "current_item ?st
      = Some \<lparr> title = Some (u ''P''), description = [],
               reference_link = Some (u ''http://a'') \<rparr>"
    by (simp add: open_state_def)
  have nh: "\<not> research_header ascii_lower ?line"
    by (simp add: research_header_def cat_defs text_defs)
  from bullet_lines [OF t ok b nd h f ti ih bn, THEN conjunct2, THEN conjunct1, THEN mp,
      OF refl, THEN mp, OF it, THEN mp, OF nh]
  show "cat_loop ascii_lower ascii_digit RESEARCH (table_of RESEARCH) ?st [?line]
      = Inr (open_state RESEARCH (Some (u ''Paper of the Week''))
              (Some \<lparr> title = Some (u ''P''), description = [bullet] @ u '' note'',
                      reference_link = Some (u ''http://a'') \<rparr>))"
    by (simp add: open_state_def item_defs text_defs)
next
  let ?st = "open_state TECHNOLOGY None None"
  let ?line = "u ''* Foo model''"
  have t: "map_of subcategory_mapping TECHNOLOGY = Some (table_of TECHNOLOGY)"
    by (simp add: table_of_lookup)
  have ok: "state_ok (table_of TECHNOLOGY) ?st"
    by (simp add: state_defs subcategory_mapping_def)
  have b: "is_bullet ?line"
    by (simp add: is_bullet_def startswith_def u_def)
  have nd: "\<not> is_delimiter ?line"
    by (simp add: text_defs)
  have h: "header_rules ascii_lower TECHNOLOGY (table_of TECHNOLOGY) ?st ?line [] = None"
    by (simp add: state_defs cat_defs text_defs)
  have f: "\<not> technology_filter ascii_lower TECHNOLOGY ?line"
    by (simp add: technology_filter_def text_defs)
  have ti: "title_rule ascii_lower TECHNOLOGY (table_of TECHNOLOGY) ?st ?line [] = None"
    by (simp add: title_rule_def)
  have ih: "item_header ?line = None"
    by (simp add: item_header_def text_defs)
  have bn: "\<not> business_names TECHNOLOGY ?line"
    by (simp add: business_names_def)
  from bullet_lines [OF t ok b nd h f ti ih bn, THEN conjunct2, THEN conjunct2, THEN mp,
      OF disjI1, OF refl]
  obtain r k where r: "save_plain ?st = Inr r"
    and k: "if is_set (current_subcategory ?st) then current_subcategory ?st = Some k
            else detect_subcategory ascii_lower (str_strip (drop 1 ?line)) TECHNOLOGY
                   (table_of TECHNOLOGY) = Inr k"
    and step: "cat_loop ascii_lower ascii_digit TECHNOLOGY (table_of TECHNOLOGY) ?st [?line]
        = cat_loop ascii_lower ascii_digit TECHNOLOGY (table_of TECHNOLOGY)
            \<lparr> result = r, current_subcategory = Some k,
               current_item =
                 Some \<lparr> title = None,
                        description = strip_links (str_strip (drop 1 ?line)),
                        reference_link =
                          extract_link_from_text (str_strip (drop 1 ?line)) \<rparr> \<rparr> []"
    by blast
  from r have r': "r = result ?st"
    by (simp add: save_plain_def open_state_def)
  from k have k': "k = u ''Models & Datasets''"
    by (simp add: state_defs cat_defs text_defs)
  from step show "cat_loop ascii_lower ascii_digit TECHNOLOGY (table_of TECHNOLOGY) ?st [?line]
      = Inr (open_state TECHNOLOGY (Some (u ''Models & Datasets''))
              (Some \<lparr> title = None, description = u ''Foo model'',
                      reference_link = None \<rparr>))"
    unfolding r' k' by (simp add: open_state_def item_defs text_defs)
qed

text \<open>
  C6, as the claim states it, fails twice: a bullet line at the start of a BUSINESS
  section starts an item, and a bullet line after a paper of RESEARCH starts none and
  goes, with its marker, to the description of the paper.
\<close>

theorem bullet_claim_fails:
  "parse_categorized_section ascii_lower ascii_digit
     ([bullet] @ u '' Foo raised money'') BUSINESS
   = Inr [(u ''Funding & Investment'',
            [\<lparr> title = None, description = u ''Foo raised money'',
               reference_link = None \<rparr>]),
          (u ''Company Updates'', []),
          (u ''Regulatory Developments'', []),
          (u ''Market Trends'', [])]
   \<and> parse_categorized_section ascii_lower ascii_digit
       (u ''[P](http://a)\<newline>'' @ [bullet] @ u '' note'') RESEARCH
     = Inr [(u ''Paper of the Week'',
              [\<lparr> title = Some (u ''P''), description = [bullet] @ u '' note'',
                 reference_link = Some (u ''http://a'') \<rparr>]),
            (u ''Notable Research'', [])]"
  by (simp add: cat_defs text_defs item_defs)


end
